theory Spec2Isabelle
  imports Main "HOL-Library.Word" "HOL-Library.Signed_Division"
begin

section \<open>C arithmetic as the fixed-point kernel uses it\<close>

text \<open>
  The engine computes on \<^verbatim>\<open>int16_t\<close> values; every arithmetic operator first promotes
  its operands to \<^verbatim>\<open>int\<close>, which is taken to be 32 bits wide (the "larger intermediate
  type" of the multiplication). A 16-bit value is a \<^typ>\<open>16 word\<close> read by \<^const>\<open>sint\<close>;
  a promoted value is an \<^typ>\<open>int\<close>, and an operation whose mathematical result leaves
  the range of \<^verbatim>\<open>int\<close> is undefined behaviour. Converting an \<^verbatim>\<open>int\<close> back to
  \<^verbatim>\<open>int16_t\<close> keeps the low 16 bits (\<^const>\<open>word_of_int\<close>), as every two's-complement
  compiler does.

  Everything the C standard leaves undefined is a value of type \<open>fault\<close>; a function
  that can run into it returns \<open>fault + 'a\<close>, with \<open>Inl\<close> for the fault.
\<close>

type_synonym int16 = "16 word"

datatype fault =
    DivByZero          \<comment> \<open>integer division by zero\<close>
  | ShiftNegative      \<comment> \<open>\<^verbatim>\<open>1 << n\<close> with \<^verbatim>\<open>n < 0\<close>\<close>
  | ShiftTooWide       \<comment> \<open>\<^verbatim>\<open>1 << n\<close> with \<^verbatim>\<open>n >= 31\<close>: the result is no \<^verbatim>\<open>int\<close>\<close>
  | IntOverflow        \<comment> \<open>signed overflow of an \<^verbatim>\<open>int\<close> operation\<close>
  | NullDeref          \<comment> \<open>access through a pointer to no live matrix\<close>
  | OutOfBounds        \<comment> \<open>array access outside its storage\<close>
  | ShapeMismatch      \<comment> \<open>a matrix primitive refuses its operands\<close>
  | BadCast            \<comment> \<open>\<^verbatim>\<open>void *\<close> cast to the wrong parameter struct\<close>

type_synonym 'a res = "fault + 'a"

definition seq :: "'a res \<Rightarrow> ('a \<Rightarrow> 'b res) \<Rightarrow> 'b res" where
  "seq m f = (case m of Inl e \<Rightarrow> Inl e | Inr v \<Rightarrow> f v)"

definition c_int :: "int \<Rightarrow> int res" where
  "c_int k = (if - (2 ^ 31) \<le> k \<and> k < 2 ^ 31 then Inr k else Inl IntOverflow)"

text \<open>\<^verbatim>\<open>1 << n\<close> on \<^verbatim>\<open>int\<close>.\<close>

definition shl1 :: "int \<Rightarrow> int res" where
  "shl1 n = (if n < 0 then Inl ShiftNegative
             else if 31 \<le> n then Inl ShiftTooWide
             else Inr (2 ^ nat n))"

text \<open>\<^verbatim>\<open>a / b\<close> on \<^verbatim>\<open>int\<close>: the quotient is truncated towards zero.\<close>

definition c_div :: "int \<Rightarrow> int \<Rightarrow> int res" where
  "c_div a b = (if b = 0 then Inl DivByZero else c_int (a sdiv b))"

section \<open>The fixed-point kernel (fixed\_point\_ops.c)\<close>

definition fp_add :: "int16 \<Rightarrow> int16 \<Rightarrow> int16" where
  "fp_add x y = word_of_int (sint x + sint y)"

definition fp_sub :: "int16 \<Rightarrow> int16 \<Rightarrow> int16" where
  "fp_sub x y = word_of_int (sint x - sint y)"

definition fp_mul :: "int16 \<Rightarrow> int16 \<Rightarrow> int16 \<Rightarrow> int16 res" where
  "fp_mul x y precision =
     seq (shl1 (sint precision)) (\<lambda>scale.
     seq (c_int (sint x * sint y)) (\<lambda>prod.
     seq (c_div prod scale) (\<lambda>q.
     Inr (word_of_int q))))"

definition fp_div :: "int16 \<Rightarrow> int16 \<Rightarrow> int16 \<Rightarrow> int16 res" where
  "fp_div x y precision =
     seq (shl1 (sint precision)) (\<lambda>scale.
     seq (c_int (sint x * scale)) (\<lambda>num.
     seq (c_div num (sint y)) (\<lambda>q.
     Inr (word_of_int q))))"

definition fp_neg :: "int16 \<Rightarrow> int16" where
  "fp_neg x = word_of_int (- 1 * sint x)"

definition int_to_fp :: "int16 \<Rightarrow> int16 \<Rightarrow> int16 res" where
  "int_to_fp x precision =
     seq (shl1 (sint precision)) (\<lambda>scale.
     seq (c_int (sint x * scale)) (\<lambda>k.
     Inr (word_of_int k)))"

text \<open>
  The body of the \<^verbatim>\<open>for\<close> loop of \<^verbatim>\<open>fp_exp\<close>. The loop state is the tuple of the
  variables it assigns, \<open>(acc, fct, prev_result, result)\<close> (\<open>fct\<close> is the source's \<^verbatim>\<open>fact\<close>).
\<close>

type_synonym exp_state = "int16 \<times> int16 \<times> int16 \<times> int16"

definition exp_body :: "int16 \<Rightarrow> int16 \<Rightarrow> int \<Rightarrow> exp_state \<Rightarrow> exp_state res" where
  "exp_body x precision i st =
     (case st of (acc, fct, prev_result, result) \<Rightarrow>
        seq (fp_mul x acc precision) (\<lambda>acc'.
        seq (shl1 (sint precision)) (\<lambda>scale.
        seq (c_int (i * scale)) (\<lambda>f.
        seq (fp_mul fct (word_of_int f) precision) (\<lambda>fct'.
        seq (fp_div acc' fct' precision) (\<lambda>trm.
        Inr (acc', fct', result, fp_add trm result)))))))"

text \<open>
  \<^verbatim>\<open>POWER_SERIES_TERMS\<close> is a macro of the absent header; the loop takes it as the
  parameter \<open>terms\<close>.
\<close>

function exp_loop :: "int \<Rightarrow> int16 \<Rightarrow> int16 \<Rightarrow> int \<Rightarrow> exp_state \<Rightarrow> int16 res" where
  "exp_loop terms x precision i st =
     (case st of (acc, fct, prev_result, result) \<Rightarrow>
        if i < terms \<and> prev_result \<noteq> result
        then (case exp_body x precision i st of
                Inl e \<Rightarrow> Inl e
              | Inr st' \<Rightarrow> exp_loop terms x precision (i + 1) st')
        else Inr result)"
  by pat_completeness auto
termination
  by (relation "measure (\<lambda>(terms, x, precision, i, st). nat (terms - i))") auto

declare exp_loop.simps [simp del]

definition fp_exp :: "int \<Rightarrow> int16 \<Rightarrow> int16 \<Rightarrow> int16 res" where
  "fp_exp terms x0 precision =
     (let should_invert = (sint x0 < 0);
          x = (if should_invert then fp_neg x0 else x0)
      in seq (shl1 (sint precision)) (\<lambda>scale.
         let one = (word_of_int scale :: int16)
         in seq (exp_loop terms x precision 1 (one, one, 0, one)) (\<lambda>result.
            if should_invert
            then seq (int_to_fp 1 precision) (\<lambda>unit. fp_div unit result precision)
            else Inr result)))"

definition fp_tanh :: "int16 \<Rightarrow> int16 \<Rightarrow> int16 res" where
  "fp_tanh x0 precision =
     (let should_invert_sign = (sint x0 < 0);
          x = (if should_invert_sign then fp_neg x0 else x0)
      in seq (shl1 (sint precision - 3)) (\<lambda>e.
         seq (shl1 (sint precision - 1)) (\<lambda>h.
         seq (int_to_fp 1 precision) (\<lambda>one.
         let one_eighth = (word_of_int e :: int16);
             one_half = (word_of_int h :: int16)
         in seq (fp_mul x x precision) (\<lambda>x_squared.
            seq (fp_mul x_squared one_eighth precision) (\<lambda>n.
            let numerator = fp_add one n
            in seq (fp_mul x_squared one_half precision) (\<lambda>d.
               let denominator = fp_add one d
               in seq (fp_div numerator denominator precision) (\<lambda>rational_factor.
                  seq (fp_mul x rational_factor precision) (\<lambda>r.
                  let result = (if should_invert_sign then fp_neg r else r);
                      neg_one = fp_neg one
                  in if sint one < sint result then Inr one
                     else if sint result < sint neg_one then Inr neg_one
                     else Inr result)))))))))"

definition fp_sigmoid :: "int16 \<Rightarrow> int16 \<Rightarrow> int16 res" where
  "fp_sigmoid x0 precision =
     (let should_invert_sign = (sint x0 < 0);
          x = (if should_invert_sign then fp_neg x0 else x0)
      in seq (shl1 (sint precision)) (\<lambda>s.
         seq (shl1 (sint precision - 1)) (\<lambda>h.
         let one = (word_of_int s :: int16);
             one_half = (word_of_int h :: int16)
         in seq (fp_mul x one_half precision) (\<lambda>half_x.
            seq (fp_tanh half_x precision) (\<lambda>tanh.
            seq (fp_mul (fp_add tanh one) one_half precision) (\<lambda>result.
            if should_invert_sign
            then Inr (word_of_int (sint one - sint result))
            else Inr result))))))"

subsection \<open>Parts of the kernel functions, for stating lemmas\<close>

text \<open>
  The rational approximant of \<^verbatim>\<open>fp_tanh\<close> (the statements from the constants to
  \<^verbatim>\<open>result = fp_mul(x, rational_factor, precision)\<close>) as a function of the mirrored
  argument \<open>x\<close>, returning \<open>one\<close> and \<open>result\<close>, and the clipping at the end of \<^verbatim>\<open>fp_tanh\<close> as a function of
  \<open>one\<close> and \<open>result\<close>. Lemma \<open>fp_tanh_parts\<close> puts \<open>fp_tanh\<close> together from them.
\<close>

definition tanh_rational :: "int16 \<Rightarrow> int16 \<Rightarrow> (int16 \<times> int16) res" where
  "tanh_rational x precision =
     seq (shl1 (sint precision - 3)) (\<lambda>e.
     seq (shl1 (sint precision - 1)) (\<lambda>h.
     seq (int_to_fp 1 precision) (\<lambda>one.
     let one_eighth = (word_of_int e :: int16);
         one_half = (word_of_int h :: int16)
     in seq (fp_mul x x precision) (\<lambda>x_squared.
        seq (fp_mul x_squared one_eighth precision) (\<lambda>n.
        let numerator = fp_add one n
        in seq (fp_mul x_squared one_half precision) (\<lambda>d.
           let denominator = fp_add one d
           in seq (fp_div numerator denominator precision) (\<lambda>rational_factor.
              seq (fp_mul x rational_factor precision) (\<lambda>r.
              Inr (one, r)))))))))"

definition tanh_clip :: "int16 \<Rightarrow> int16 \<Rightarrow> int16" where
  "tanh_clip one result =
     (let neg_one = fp_neg one
      in if sint one < sint result then one
         else if sint result < sint neg_one then neg_one
         else result)"

text \<open>
  The state of the loop of \<^verbatim>\<open>fp_exp\<close> after \<open>n\<close> executions of its body, started as
  \<^verbatim>\<open>fp_exp\<close> starts it; the \<open>n\<close>-th execution runs with \<^verbatim>\<open>i = n\<close>.
\<close>

primrec exp_iter :: "int16 \<Rightarrow> int16 \<Rightarrow> nat \<Rightarrow> exp_state res" where
  "exp_iter x precision 0 =
     seq (shl1 (sint precision)) (\<lambda>scale.
       let one = (word_of_int scale :: int16) in Inr (one, one, 0, one))"
| "exp_iter x precision (Suc n) =
     seq (exp_iter x precision n) (exp_body x precision (int n + 1))"

section \<open>Matrices in a store\<close>

text \<open>
  Modelled from the spec: the struct \<^verbatim>\<open>matrix\<close> is declared in the absent matrix header.
  The spec (section 3) gives it \<^verbatim>\<open>numRows\<close>, \<^verbatim>\<open>numCols\<close> and a row-major array of
  fixed-point scalars; the layer code reads \<^verbatim>\<open>numRows\<close>, \<^verbatim>\<open>numCols\<close> and
  \<^verbatim>\<open>data[index]\<close>.
\<close>

record matrix =
  numRows :: nat
  numCols :: nat
  data :: "int16 list"

text \<open>
  A \<^verbatim>\<open>matrix *\<close> is an address in a store of matrix objects. The layer functions
  write through their \<^verbatim>\<open>result\<close> argument, which may be the same object as an input
  (\<^verbatim>\<open>rnn\<close> passes \<^verbatim>\<open>state\<close> twice), so the store is explicit. An address with no
  live object stands for a null or dangling pointer.
\<close>

type_synonym heap = "matrix option list"

definition mat_at :: "heap \<Rightarrow> nat \<Rightarrow> matrix res" where
  "mat_at h p = (if p < length h then (case h ! p of Some m \<Rightarrow> Inr m | None \<Rightarrow> Inl NullDeref)
                 else Inl NullDeref)"

definition set_data :: "heap \<Rightarrow> nat \<Rightarrow> matrix \<Rightarrow> int16 list \<Rightarrow> heap" where
  "set_data h p m v = h[p := Some (m\<lparr>data := v\<rparr>)]"

fun map_res :: "('a \<Rightarrow> 'b res) \<Rightarrow> 'a list \<Rightarrow> 'b list res" where
  "map_res f [] = Inr []"
| "map_res f (x # xs) = seq (f x) (\<lambda>y. seq (map_res f xs) (\<lambda>ys. Inr (y # ys)))"

subsection \<open>The matrix primitives\<close>

text \<open>
  Modelled from the spec: the matrix primitives are functions of the absent matrix
  module. Section 6 of the spec gives their contracts: \<open>allocate(rows, cols)\<close> returns a
  zero-initialized matrix; \<open>multiply(dst, A, B, precision)\<close> sets \<open>dst := A\<cdot>B\<close>, the
  standard matrix product, fixed-point scaled; \<open>add(dst, A, B)\<close> sets \<open>dst := A+B\<close>
  elementwise (same shape required); \<open>hadamard(dst, A, B, precision)\<close> sets
  \<open>dst := A\<odot>B\<close>; \<open>scalarProduct(dst, A, k, precision)\<close> and \<open>scalarAdd(dst, A, k)\<close>
  scale and offset elementwise; \<open>map(dst, A, f, precision)\<close> sets
  \<open>dst[i] := f(A[i], precision)\<close>; \<open>stack(dst, A, B)\<close> sets \<open>dst\<close> to \<open>A\<close> over \<open>B\<close>;
  \<open>set(dst, k)\<close> fills \<open>dst\<close> with \<open>k\<close>; \<open>free(M)\<close> releases \<open>M\<close>. \<open>dst\<close> may be one of
  the inputs: each primitive reads its inputs from the store it is given and then
  writes \<open>dst\<close>. The layer code uses the value each primitive returns as the matrix
  written, so a primitive returns \<open>dst\<close>. Operands of the wrong shape are the primitive's
  to report: the fault \<open>ShapeMismatch\<close>.
\<close>

definition matrix_allocate :: "heap \<Rightarrow> nat \<Rightarrow> nat \<Rightarrow> heap \<times> nat" where
  "matrix_allocate h rows cols =
     (h @ [Some \<lparr>numRows = rows, numCols = cols, data = replicate (rows * cols) 0\<rparr>], length h)"

definition matrix_free :: "heap \<Rightarrow> nat \<Rightarrow> heap" where
  "matrix_free h p = h[p := None]"

definition same_shape :: "matrix \<Rightarrow> matrix \<Rightarrow> bool" where
  "same_shape a b \<longleftrightarrow> numRows a = numRows b \<and> numCols a = numCols b"

definition add_v :: "int16 list \<Rightarrow> int16 list \<Rightarrow> int16 list" where
  "add_v xs ys = map (\<lambda>(x, y). fp_add x y) (zip xs ys)"

definition hadamard_v :: "int16 \<Rightarrow> int16 list \<Rightarrow> int16 list \<Rightarrow> int16 list res" where
  "hadamard_v precision xs ys = map_res (\<lambda>(x, y). fp_mul x y precision) (zip xs ys)"

definition scalar_product_v :: "int16 \<Rightarrow> int16 \<Rightarrow> int16 list \<Rightarrow> int16 list res" where
  "scalar_product_v precision k xs = map_res (\<lambda>x. fp_mul x k precision) xs"

definition scalar_add_v :: "int16 \<Rightarrow> int16 list \<Rightarrow> int16 list" where
  "scalar_add_v k xs = map (\<lambda>x. fp_add x k) xs"

definition dot_v :: "int16 \<Rightarrow> int16 list \<Rightarrow> int16 list \<Rightarrow> int16 res" where
  "dot_v precision xs ys =
     seq (hadamard_v precision xs ys) (\<lambda>ps. Inr (foldl fp_add 0 ps))"

definition row_v :: "matrix \<Rightarrow> nat \<Rightarrow> int16 list" where
  "row_v a i = take (numCols a) (drop (i * numCols a) (data a))"

definition col_v :: "matrix \<Rightarrow> nat \<Rightarrow> int16 list" where
  "col_v b j = map (\<lambda>l. data b ! (l * numCols b + j)) [0..<numRows b]"

definition multiply_v :: "int16 \<Rightarrow> matrix \<Rightarrow> matrix \<Rightarrow> int16 list res" where
  "multiply_v precision a b =
     map_res (\<lambda>(i, j). dot_v precision (row_v a i) (col_v b j))
       (concat (map (\<lambda>i. map (\<lambda>j. (i, j)) [0..<numCols b]) [0..<numRows a]))"

definition matrix_multiply :: "heap \<Rightarrow> nat \<Rightarrow> nat \<Rightarrow> nat \<Rightarrow> int16 \<Rightarrow> (heap \<times> nat) res" where
  "matrix_multiply h dst a b precision =
     seq (mat_at h a) (\<lambda>A.
     seq (mat_at h b) (\<lambda>B.
     seq (mat_at h dst) (\<lambda>D.
     if numCols A = numRows B \<and> numRows D = numRows A \<and> numCols D = numCols B
     then seq (multiply_v precision A B) (\<lambda>v. Inr (set_data h dst D v, dst))
     else Inl ShapeMismatch)))"

definition matrix_add :: "heap \<Rightarrow> nat \<Rightarrow> nat \<Rightarrow> nat \<Rightarrow> (heap \<times> nat) res" where
  "matrix_add h dst a b =
     seq (mat_at h a) (\<lambda>A.
     seq (mat_at h b) (\<lambda>B.
     seq (mat_at h dst) (\<lambda>D.
     if same_shape A B \<and> same_shape D A
     then Inr (set_data h dst D (add_v (data A) (data B)), dst)
     else Inl ShapeMismatch)))"

definition matrix_hadamard :: "heap \<Rightarrow> nat \<Rightarrow> nat \<Rightarrow> nat \<Rightarrow> int16 \<Rightarrow> (heap \<times> nat) res" where
  "matrix_hadamard h dst a b precision =
     seq (mat_at h a) (\<lambda>A.
     seq (mat_at h b) (\<lambda>B.
     seq (mat_at h dst) (\<lambda>D.
     if same_shape A B \<and> same_shape D A
     then seq (hadamard_v precision (data A) (data B)) (\<lambda>v. Inr (set_data h dst D v, dst))
     else Inl ShapeMismatch)))"

definition scalar_product :: "heap \<Rightarrow> nat \<Rightarrow> nat \<Rightarrow> int16 \<Rightarrow> int16 \<Rightarrow> (heap \<times> nat) res" where
  "scalar_product h dst a k precision =
     seq (mat_at h a) (\<lambda>A.
     seq (mat_at h dst) (\<lambda>D.
     if same_shape D A
     then seq (scalar_product_v precision k (data A)) (\<lambda>v. Inr (set_data h dst D v, dst))
     else Inl ShapeMismatch))"

definition scalar_add :: "heap \<Rightarrow> nat \<Rightarrow> nat \<Rightarrow> int16 \<Rightarrow> (heap \<times> nat) res" where
  "scalar_add h dst a k =
     seq (mat_at h a) (\<lambda>A.
     seq (mat_at h dst) (\<lambda>D.
     if same_shape D A
     then Inr (set_data h dst D (scalar_add_v k (data A)), dst)
     else Inl ShapeMismatch))"

definition apply_elementwise ::
  "heap \<Rightarrow> nat \<Rightarrow> nat \<Rightarrow> (int16 \<Rightarrow> int16 \<Rightarrow> int16 res) \<Rightarrow> int16 \<Rightarrow> (heap \<times> nat) res" where
  "apply_elementwise h dst a f precision =
     seq (mat_at h a) (\<lambda>A.
     seq (mat_at h dst) (\<lambda>D.
     if same_shape D A
     then seq (map_res (\<lambda>x. f x precision) (data A)) (\<lambda>v. Inr (set_data h dst D v, dst))
     else Inl ShapeMismatch))"

definition stack :: "heap \<Rightarrow> nat \<Rightarrow> nat \<Rightarrow> nat \<Rightarrow> (heap \<times> nat) res" where
  "stack h dst a b =
     seq (mat_at h a) (\<lambda>A.
     seq (mat_at h b) (\<lambda>B.
     seq (mat_at h dst) (\<lambda>D.
     if numCols A = numCols B \<and> numCols D = numCols A \<and> numRows D = numRows A + numRows B
     then Inr (set_data h dst D (data A @ data B), dst)
     else Inl ShapeMismatch)))"

definition matrix_set :: "heap \<Rightarrow> nat \<Rightarrow> int16 \<Rightarrow> heap res" where
  "matrix_set h dst k =
     seq (mat_at h dst) (\<lambda>D. Inr (set_data h dst D (replicate (length (data D)) k)))"

section \<open>The layers (layers.c)\<close>

definition apply_gate :: "heap \<Rightarrow> nat \<Rightarrow> nat \<Rightarrow> nat \<Rightarrow> nat \<Rightarrow> int16 \<Rightarrow> (heap \<times> nat) res" where
  "apply_gate h0 result gate first second precision =
     seq (mat_at h0 gate) (\<lambda>G.
     case matrix_allocate h0 (numRows G) (numCols G) of (h, opp_gate) \<Rightarrow>
     seq (int_to_fp (- 1) precision) (\<lambda>minus_one.
     seq (scalar_product h opp_gate gate minus_one precision) (\<lambda>(h, scaled).
     seq (int_to_fp 1 precision) (\<lambda>one.
     seq (scalar_add h opp_gate scaled one) (\<lambda>(h, opp_gate).
     seq (matrix_hadamard h opp_gate second opp_gate precision) (\<lambda>(h, opp_gate).
     seq (matrix_hadamard h result first gate precision) (\<lambda>(h, weighted).
     seq (matrix_add h result weighted opp_gate) (\<lambda>(h, result).
     Inr (matrix_free h opp_gate, result)))))))))"

text \<open>
  Modelled from the spec: the structs \<^verbatim>\<open>GRU\<close> and \<^verbatim>\<open>TFGRU\<close> and the enum
  \<^verbatim>\<open>CellType\<close> are declared in the absent layers header. The spec (section 3) lists
  the nine matrices of the GRU parameters and the four of the fused ones, and the two
  tags \<^verbatim>\<open>GRUCell\<close> and \<^verbatim>\<open>TFGRUCell\<close>; the layer code reads exactly these fields. A
  C enum can hold any other integer as well: \<open>OtherCell k\<close>. The \<^verbatim>\<open>void *cell\<close> of
  \<^verbatim>\<open>rnn\<close> points to one of the two structs.
\<close>

record GRU =
  uUpdate :: nat
  wUpdate :: nat
  bUpdate :: nat
  uReset :: nat
  wReset :: nat
  bReset :: nat
  uCandidate :: nat
  wCandidate :: nat
  bCandidate :: nat

record TFGRU =
  wGates :: nat
  bGates :: nat
  wCandidates :: nat
  bCandidates :: nat

datatype CellType = GRUCell | TFGRUCell | OtherCell int

datatype cell = GRU_struct GRU | TFGRU_struct TFGRU

definition apply_gru :: "heap \<Rightarrow> nat \<Rightarrow> nat \<Rightarrow> nat \<Rightarrow> GRU \<Rightarrow> int16 \<Rightarrow> (heap \<times> nat) res" where
  "apply_gru h0 result input state gru precision =
     seq (mat_at h0 state) (\<lambda>S.
     case matrix_allocate h0 (numRows S) (numCols S) of (h, update) \<Rightarrow>
     case matrix_allocate h (numRows S) (numCols S) of (h, reset) \<Rightarrow>
     case matrix_allocate h (numRows S) (numCols S) of (h, candidate) \<Rightarrow>
     case matrix_allocate h (numRows S) (numCols S) of (h, inputUpdate) \<Rightarrow>
     case matrix_allocate h (numRows S) (numCols S) of (h, inputReset) \<Rightarrow>
     case matrix_allocate h (numRows S) (numCols S) of (h, inputCandidate) \<Rightarrow>
     seq (matrix_multiply h inputUpdate (uUpdate gru) input precision) (\<lambda>(h, inputUpdate).
     seq (matrix_multiply h update (wUpdate gru) state precision) (\<lambda>(h, update).
     seq (matrix_add h update update inputUpdate) (\<lambda>(h, update).
     seq (matrix_add h update update (bUpdate gru)) (\<lambda>(h, update).
     seq (apply_elementwise h update update fp_sigmoid precision) (\<lambda>(h, update).
     seq (matrix_multiply h inputReset (uReset gru) input precision) (\<lambda>(h, inputReset).
     seq (matrix_multiply h reset (wReset gru) state precision) (\<lambda>(h, reset).
     seq (matrix_add h reset reset inputReset) (\<lambda>(h, reset).
     seq (matrix_add h reset reset (bReset gru)) (\<lambda>(h, reset).
     seq (apply_elementwise h reset reset fp_sigmoid precision) (\<lambda>(h, reset).
     seq (matrix_hadamard h reset state reset precision) (\<lambda>(h, reset).
     seq (matrix_multiply h inputCandidate (uCandidate gru) input precision) (\<lambda>(h, inputCandidate).
     seq (matrix_multiply h candidate (wCandidate gru) reset precision) (\<lambda>(h, candidate).
     seq (matrix_add h candidate candidate inputCandidate) (\<lambda>(h, candidate).
     seq (matrix_add h candidate candidate (bCandidate gru)) (\<lambda>(h, candidate).
     seq (apply_elementwise h candidate candidate fp_tanh precision) (\<lambda>(h, candidate).
     seq (apply_gate h result update state candidate precision) (\<lambda>(h, result).
     let h = matrix_free h inputUpdate;
         h = matrix_free h inputReset;
         h = matrix_free h inputCandidate;
         h = matrix_free h update;
         h = matrix_free h reset;
         h = matrix_free h candidate
     in Inr (h, result)))))))))))))))))))"

text \<open>
  The two \<^verbatim>\<open>for\<close> loops of \<^verbatim>\<open>apply_tf_gru\<close>, which copy
  \<^verbatim>\<open>src->data[index]\<close> to \<^verbatim>\<open>dst->data[index - offset]\<close> while \<^verbatim>\<open>index < bound\<close>
  and leave \<^verbatim>\<open>index\<close> behind. The first loop has no offset. \<^verbatim>\<open>index\<close> and
  \<^verbatim>\<open>offset\<close> are \<^verbatim>\<open>int16_t\<close>: \<^verbatim>\<open>index++\<close> keeps the low 16 bits of \<^verbatim>\<open>index + 1\<close>,
  so that after 32767 comes -32768. The loops write only \<^verbatim>\<open>data\<close>, so the bound they
  read from a \<^verbatim>\<open>numRows\<close> field does not change. An access outside the array (a
  negative subscript among them) is the fault \<open>OutOfBounds\<close>.
\<close>

function split_copy :: "heap \<Rightarrow> nat \<Rightarrow> nat \<Rightarrow> int16 \<Rightarrow> nat \<Rightarrow> int16 \<Rightarrow> (heap \<times> int16) res" where
  "split_copy h dst src offset bound index =
     (if sint index < int bound
      then (case mat_at h src of
              Inl e \<Rightarrow> Inl e
            | Inr S \<Rightarrow>
                (case mat_at h dst of
                   Inl e \<Rightarrow> Inl e
                 | Inr D \<Rightarrow>
                     if 0 \<le> sint index \<and> nat (sint index) < length (data S) \<and>
                        0 \<le> sint index - sint offset \<and>
                        nat (sint index - sint offset) < length (data D)
                     then split_copy
                            (set_data h dst D
                               ((data D)[nat (sint index - sint offset) :=
                                           data S ! nat (sint index)]))
                            dst src offset bound (word_of_int (sint index + 1))
                     else Inl OutOfBounds))
      else Inr (h, index))"
  by pat_completeness auto
termination
proof (relation "measure (\<lambda>(h, dst, src, offset, bound, index).
                   if sint index < 0 then 0 else nat (32768 - sint index))")
  show "wf (measure (\<lambda>(h, dst, src, offset, bound, index).
              if sint index < 0 then 0 else nat (32768 - sint (index :: int16))))"
    by simp
next
  fix h :: heap and dst src bound :: nat and offset index :: int16 and S D :: matrix
  assume "0 \<le> sint index \<and> nat (sint index) < length (data S) \<and>
          0 \<le> sint index - sint offset \<and> nat (sint index - sint offset) < length (data D)"
  then have i0: "0 \<le> sint index" by simp
  have i1: "sint index \<le> 32767"
    using sint_lt [of index] by simp
  have narrow: "sint (word_of_int k :: int16) = k" if "- 32768 \<le> k" "k \<le> 32767" for k
    using that by (simp add: sint_sbintrunc' signed_take_bit_int_eq_self)
  have "sint (word_of_int (sint index + 1) :: int16) =
          (if sint index = 32767 then - 32768 else sint index + 1)"
  proof (cases "sint index = 32767")
    case True
    have "sint (word_of_int (32767 + 1) :: int16) = - 32768" by simp
    then show ?thesis unfolding True by simp
  next
    case False
    then have "sint (word_of_int (sint index + 1) :: int16) = sint index + 1"
      using i0 i1 by (intro narrow) linarith+
    then show ?thesis using False by simp
  qed
  then show "((set_data h dst D
                 ((data D)[nat (sint index - sint offset) := data S ! nat (sint index)]),
               dst, src, offset, bound, word_of_int (sint index + 1)),
              (h, dst, src, offset, bound, index))
             \<in> measure (\<lambda>(h, dst, src, offset, bound, index).
                   if sint index < 0 then 0 else nat (32768 - sint index))"
    using i0 i1 by simp
qed

declare split_copy.simps [simp del]

definition apply_tf_gru :: "heap \<Rightarrow> nat \<Rightarrow> nat \<Rightarrow> nat \<Rightarrow> TFGRU \<Rightarrow> int16 \<Rightarrow> (heap \<times> nat) res" where
  "apply_tf_gru h0 result input state gru precision =
     seq (mat_at h0 input) (\<lambda>I.
     seq (mat_at h0 state) (\<lambda>S.
     case matrix_allocate h0 (numRows I + numRows S) (numCols S) of (h, stacked) \<Rightarrow>
     case matrix_allocate h (numRows S * 2) (numCols S) of (h, gates) \<Rightarrow>
     case matrix_allocate h (numRows S) (numCols S) of (h, candidate) \<Rightarrow>
     case matrix_allocate h (numRows S) (numCols S) of (h, update) \<Rightarrow>
     case matrix_allocate h (numRows S) (numCols S) of (h, reset) \<Rightarrow>
     seq (stack h stacked input state) (\<lambda>(h, stacked).
     seq (matrix_multiply h gates (wGates gru) stacked precision) (\<lambda>(h, gates).
     seq (matrix_add h gates gates (bGates gru)) (\<lambda>(h, gates).
     seq (apply_elementwise h gates gates fp_sigmoid precision) (\<lambda>(h, gates).
     seq (mat_at h state) (\<lambda>S'.
     seq (split_copy h reset gates 0 (numRows S') 0) (\<lambda>(h, index).
     let offset = index in
     seq (mat_at h gates) (\<lambda>G.
     seq (split_copy h update gates offset (numRows G) index) (\<lambda>(h, index).
     seq (matrix_hadamard h reset state reset precision) (\<lambda>(h, reset).
     seq (stack h stacked input reset) (\<lambda>(h, stacked).
     seq (matrix_multiply h candidate (wCandidates gru) stacked precision) (\<lambda>(h, candidate).
     seq (matrix_add h candidate candidate (bCandidates gru)) (\<lambda>(h, candidate).
     seq (apply_elementwise h candidate candidate fp_tanh precision) (\<lambda>(h, candidate).
     seq (apply_gate h result update state candidate precision) (\<lambda>(h, result).
     let h = matrix_free h update;
         h = matrix_free h reset;
         h = matrix_free h candidate;
         h = matrix_free h stacked;
         h = matrix_free h gates
     in Inr (h, result)))))))))))))))))"

text \<open>
  The loop of \<^verbatim>\<open>rnn\<close>. \<^verbatim>\<open>inputs\<close> is the array of input pointers; reading it
  past its end is the fault \<open>OutOfBounds\<close>. The result is the store and the pointer
  returned, \<open>None\<close> for \<^verbatim>\<open>NULL_PTR\<close>.
\<close>

function rnn_loop ::
  "heap \<Rightarrow> nat \<Rightarrow> nat list \<Rightarrow> cell \<Rightarrow> CellType \<Rightarrow> int16 \<Rightarrow> int16 \<Rightarrow> int \<Rightarrow> (heap \<times> nat option) res" where
  "rnn_loop h state inputs cell cellType seqLength precision i =
     (if i < sint seqLength
      then if 0 \<le> i \<and> nat i < length inputs
           then let input = inputs ! nat i
                in (case cellType of
                      GRUCell \<Rightarrow>
                        (case cell of
                           GRU_struct gru \<Rightarrow>
                             (case apply_gru h state input state gru precision of
                                Inl e \<Rightarrow> Inl e
                              | Inr (h', state') \<Rightarrow>
                                  rnn_loop h' state' inputs cell cellType seqLength precision (i + 1))
                         | TFGRU_struct gru \<Rightarrow> Inl BadCast)
                    | TFGRUCell \<Rightarrow>
                        (case cell of
                           TFGRU_struct gru \<Rightarrow>
                             (case apply_tf_gru h state input state gru precision of
                                Inl e \<Rightarrow> Inl e
                              | Inr (h', state') \<Rightarrow>
                                  rnn_loop h' state' inputs cell cellType seqLength precision (i + 1))
                         | GRU_struct gru \<Rightarrow> Inl BadCast)
                    | OtherCell k \<Rightarrow> Inr (h, None))
           else Inl OutOfBounds
      else Inr (h, Some state))"
  by pat_completeness auto
termination
  by (relation "measure (\<lambda>(h, state, inputs, cell, cellType, seqLength, precision, i).
        nat (sint seqLength - i))") auto

declare rnn_loop.simps [simp del]

definition rnn ::
  "heap \<Rightarrow> nat \<Rightarrow> nat list \<Rightarrow> cell \<Rightarrow> CellType \<Rightarrow> int16 \<Rightarrow> int16 \<Rightarrow> (heap \<times> nat option) res" where
  "rnn h result inputs cell cellType seqLength precision =
     (let state = result
      in seq (matrix_set h state 0) (\<lambda>h.
         rnn_loop h state inputs cell cellType seqLength precision 0))"

section \<open>The compositions in the words of the spec\<close>

text \<open>
  The power series of \<^verbatim>\<open>fp_exp\<close> in the words of the spec (section 4.3): the Maclaurin
  series \<open>\<Sum> x\<^sup>i/i!\<close>, accumulated term by term. The state after \<open>n\<close> terms is the power
  \<open>acc\<close>, the factorial \<open>fact\<close>, the sum before the last term and the sum. It starts
  from 1.0, which is \<^verbatim>\<open>1 << precision\<close>, with 0 as the sum before; the term \<open>i = n + 1\<close>
  sets \<open>acc = acc\<cdot>x\<close> and \<open>fact = fact\<cdot>i\<close> and adds \<open>term = acc/fact\<close> to the sum,
  where the products are \<^verbatim>\<open>fp_mul\<close>, the quotient is \<^verbatim>\<open>fp_div\<close> and \<open>i\<close> enters as the
  fixed-point value \<open>i\<cdot>2\<^sup>p\<close>, reduced to 16 bits.
\<close>

primrec power_series_spec :: "int16 \<Rightarrow> int16 \<Rightarrow> nat \<Rightarrow> exp_state res" where
  "power_series_spec x precision 0 =
     seq (shl1 (sint precision)) (\<lambda>scale.
       let one = (word_of_int scale :: int16) in Inr (one, one, 0, one))"
| "power_series_spec x precision (Suc n) =
     seq (power_series_spec x precision n) (\<lambda>(acc, fct, before, sum).
     seq (fp_mul x acc precision) (\<lambda>acc'.
     seq (shl1 (sint precision)) (\<lambda>scale.
     seq (c_int ((int n + 1) * scale)) (\<lambda>i.
     seq (fp_mul fct (word_of_int i) precision) (\<lambda>fct'.
     seq (fp_div acc' fct' precision) (\<lambda>trm.
     Inr (acc', fct', sum, fp_add trm sum)))))))"

text \<open>
  The gated blend of section 4.4 of the spec on the values of the matrices:
  \<open>gate(g, first, second) = hadamard(first, g) + hadamard(second, complement(g))\<close> with
  \<open>complement(g) = scalar_add(scalar_product(g, -1), 1)\<close>.
\<close>

definition complement_spec :: "int16 \<Rightarrow> int16 list \<Rightarrow> int16 list res" where
  "complement_spec precision g =
     seq (int_to_fp (- 1) precision) (\<lambda>minus_one.
     seq (scalar_product_v precision minus_one g) (\<lambda>scaled.
     seq (int_to_fp 1 precision) (\<lambda>one.
     Inr (scalar_add_v one scaled))))"

definition gate_spec :: "int16 \<Rightarrow> int16 list \<Rightarrow> int16 list \<Rightarrow> int16 list \<Rightarrow> int16 list res" where
  "gate_spec precision g first second =
     seq (complement_spec precision g) (\<lambda>c.
     seq (hadamard_v precision second c) (\<lambda>sc.
     seq (hadamard_v precision first g) (\<lambda>fg.
     Inr (add_v fg sc))))"

text \<open>
  The fused GRU cell of section 4.6 of the spec on the values of the matrices: the
  stacked vector \<open>[x; h_prev]\<close>, the gates \<open>sigmoid(Wgates\<cdot>stacked + bgates)\<close>, the split
  by row index (rows \<open>[0, hidden)\<close> are the reset gate, rows \<open>[hidden, 2\<cdot>hidden)\<close> the
  update gate), the reset gate applied to the previous state, the candidate
  \<open>tanh(Wcand\<cdot>[x; r \<odot> h_prev] + bcand)\<close> and the blend by the update gate.
\<close>

definition column :: "int16 list \<Rightarrow> matrix" where
  "column v = \<lparr>numRows = length v, numCols = 1, data = v\<rparr>"

definition tf_gru_spec ::
  "int16 \<Rightarrow> matrix \<Rightarrow> int16 list \<Rightarrow> matrix \<Rightarrow> int16 list \<Rightarrow> int16 list \<Rightarrow> int16 list \<Rightarrow>
   int16 list res" where
  "tf_gru_spec precision Wgates bgates Wcand bcand x h_prev =
     (let hidden = length h_prev
      in seq (multiply_v precision Wgates (column (x @ h_prev))) (\<lambda>a.
         seq (map_res (\<lambda>v. fp_sigmoid v precision) (add_v a bgates)) (\<lambda>gates.
         let r = take hidden gates;
             z = take hidden (drop hidden gates)
         in seq (hadamard_v precision h_prev r) (\<lambda>r_applied.
            seq (multiply_v precision Wcand (column (x @ r_applied))) (\<lambda>b.
            seq (map_res (\<lambda>v. fp_tanh v precision) (add_v b bcand)) (\<lambda>c.
            gate_spec precision z h_prev c))))))"

section \<open>Facts about the C arithmetic\<close>

lemma seq_Inr [simp]: "seq (Inr v) f = f v"
  by (simp add: seq_def)

lemma seq_Inl [simp]: "seq (Inl e) f = Inl e"
  by (simp add: seq_def)

lemma sint16_bounds: "- 32768 \<le> sint (x :: int16)" "sint (x :: int16) \<le> 32767"
  using sint_ge [of x] sint_lt [of x] by simp_all

lemma sint16_abs: "\<bar>sint (x :: int16)\<bar> \<le> 32768"
  using sint16_bounds [of x] by linarith

lemma sint16_eq_0 [simp]: "sint (y :: int16) = 0 \<longleftrightarrow> y = 0"
  by (simp add: signed_eq_0_iff)

lemma sint_narrow: "- 32768 \<le> k \<Longrightarrow> k \<le> 32767 \<Longrightarrow> sint (word_of_int k :: int16) = k"
  by (simp add: sint_sbintrunc' signed_take_bit_int_eq_self)

lemma narrow_sint [simp]: "(word_of_int (sint (x :: int16)) :: int16) = x"
  by simp

lemma shl1_ok: "0 \<le> n \<Longrightarrow> n \<le> 30 \<Longrightarrow> shl1 n = Inr (2 ^ nat n)"
  by (simp add: shl1_def)

lemma pow2_le_30: "n \<le> 30 \<Longrightarrow> (2::int) ^ n \<le> 2 ^ 30"
  by (rule power_increasing) simp_all

lemma abs_sdiv_eq: "\<bar>(a::int) sdiv b\<bar> = \<bar>a\<bar> div \<bar>b\<bar>"
proof -
  have nn: "0 \<le> \<bar>a\<bar> div \<bar>b\<bar>"
    by (cases "b = 0") (simp_all add: pos_imp_zdiv_nonneg_iff)
  show ?thesis
  proof (cases "a = 0 \<or> b = 0")
    case True
    then show ?thesis by (auto simp: signed_divide_int_def)
  next
    case False
    then have "\<bar>sgn a\<bar> = 1" "\<bar>sgn b\<bar> = 1"
      by (simp_all add: abs_sgn_eq_1)
    with nn show ?thesis
      by (simp add: signed_divide_int_def abs_mult)
  qed
qed

lemma abs_sdiv_le: "\<bar>(a::int) sdiv b\<bar> \<le> \<bar>a\<bar>"
proof (cases "a = 0")
  case True
  then show ?thesis by simp
next
  case False
  then have "\<bar>a\<bar> div \<bar>b\<bar> \<le> \<bar>a\<bar>"
    by (intro int_div_le_self) simp
  then show ?thesis by (simp add: abs_sdiv_eq)
qed

lemma prod16_abs: "\<bar>sint (x :: int16) * sint (y :: int16)\<bar> \<le> 2 ^ 30"
proof -
  have "\<bar>sint x\<bar> * \<bar>sint y\<bar> \<le> 32768 * 32768"
    by (rule mult_mono) (simp_all add: sint16_abs)
  then show ?thesis by (simp add: abs_mult)
qed

lemma c_int_ok: "\<bar>k\<bar> \<le> 2 ^ 30 \<Longrightarrow> c_int k = Inr k"
  by (simp add: c_int_def) linarith

lemma c_div_ok: "b \<noteq> 0 \<Longrightarrow> \<bar>a\<bar> \<le> 2 ^ 30 \<Longrightarrow> c_div a b = Inr (a sdiv b)"
  using abs_sdiv_le [of a b] by (simp add: c_div_def c_int_ok)

lemma fp_mul_ok:
  assumes "0 \<le> sint p" "sint p \<le> 30"
  shows "fp_mul x y p = Inr (word_of_int ((sint x * sint y) sdiv 2 ^ nat (sint p)))"
  using assms prod16_abs [of x y]
  by (simp add: fp_mul_def shl1_ok c_int_ok c_div_ok)

lemma pow2_nat_le: "0 \<le> n \<Longrightarrow> n \<le> k \<Longrightarrow> (2::int) ^ nat n \<le> 2 ^ nat k"
  by (rule power_increasing) simp_all

lemma fp_div_cases:
  assumes "0 \<le> sint p" "sint p \<le> 15"
  shows "fp_div x y p =
           (if sint y = 0 then Inl DivByZero
            else Inr (word_of_int ((sint x * 2 ^ nat (sint p)) sdiv sint y)))"
proof -
  have "(2::int) ^ nat (sint p) \<le> 2 ^ nat 15"
    using assms by (intro pow2_nat_le) simp_all
  then have s: "\<bar>(2::int) ^ nat (sint p)\<bar> \<le> 32768" by simp
  have "\<bar>sint x\<bar> * \<bar>(2::int) ^ nat (sint p)\<bar> \<le> 32768 * 32768"
    using s by (intro mult_mono) (simp_all add: sint16_abs)
  then have b: "\<bar>sint x * 2 ^ nat (sint p)\<bar> \<le> 2 ^ 30"
    by (simp add: abs_mult)
  show ?thesis
    using assms b by (simp add: fp_div_def shl1_ok c_int_ok c_div_ok) (simp add: c_div_def)
qed

lemma sdiv_mult_self: "b \<noteq> 0 \<Longrightarrow> (a * b) sdiv b = (a::int)"
proof -
  assume b: "b \<noteq> 0"
  have "(a * b) sdiv b = sgn a * (sgn b * sgn b) * \<bar>a\<bar>"
    using b by (simp add: signed_divide_int_def abs_mult sgn_mult)
  also have "sgn b * sgn b = 1"
    using b by (simp add: sgn_if)
  finally show ?thesis by (simp add: sgn_mult_abs)
qed

lemma fp_mul_one:
  assumes "0 \<le> sint p" "sint p \<le> 14"
  shows "fp_mul x (word_of_int (2 ^ nat (sint p))) p = Inr x"
proof -
  have le: "(2::int) ^ nat (sint p) \<le> 2 ^ nat 14"
    using assms by (intro pow2_nat_le) simp_all
  have ge: "(0::int) \<le> 2 ^ nat (sint p)" by simp
  have "sint (word_of_int (2 ^ nat (sint p)) :: int16) = 2 ^ nat (sint p)"
  proof (rule sint_narrow)
    show "- 32768 \<le> (2::int) ^ nat (sint p)" using ge by linarith
    show "(2::int) ^ nat (sint p) \<le> 32767" using le by simp
  qed
  then show ?thesis
    using assms by (simp add: fp_mul_ok sdiv_mult_self)
qed

lemma mul_div_roundtrip_int:
  fixes X Y s :: int
  assumes Y: "Y \<noteq> 0" and s: "0 < s"
  defines "q \<equiv> (X * Y) sdiv s"
  defines "d \<equiv> (q * s) sdiv Y"
  shows "\<bar>q * s\<bar> \<le> \<bar>X * Y\<bar>"
    and "\<bar>d\<bar> \<le> \<bar>X\<bar>"
    and "\<bar>d - X\<bar> * \<bar>Y\<bar> < \<bar>Y\<bar> + s"
    and "X < 0 \<Longrightarrow> d \<le> 0"
    and "0 \<le> X \<Longrightarrow> 0 \<le> d"
proof -
  define A where "A = \<bar>X\<bar>"
  define B where "B = \<bar>Y\<bar>"
  define t where "t = (A * B) div s"
  define e where "e = (t * s) div B"
  have B: "0 < B" using Y by (simp add: B_def)
  have A: "0 \<le> A" by (simp add: A_def)
  have t0: "0 \<le> t" using A B s by (simp add: t_def pos_imp_zdiv_nonneg_iff)
  have ts_le: "t * s \<le> A * B"
    using s by (simp add: t_def) (metis div_mult_mod_eq add_increasing2 pos_mod_sign order_refl mult.commute)
  have ts_gt: "A * B < t * s + s"
  proof -
    have "A * B = t * s + (A * B) mod s" by (simp add: t_def)
    moreover have "(A * B) mod s < s" using s by simp
    ultimately show ?thesis by linarith
  qed
  have e0: "0 \<le> e" using t0 s B by (simp add: e_def pos_imp_zdiv_nonneg_iff)
  have eB_le: "e * B \<le> t * s"
  proof -
    have "t * s = e * B + (t * s) mod B" by (simp add: e_def)
    moreover have "0 \<le> (t * s) mod B" using B by simp
    ultimately show ?thesis by linarith
  qed
  have eB_gt: "t * s < e * B + B"
  proof -
    have "t * s = e * B + (t * s) mod B" by (simp add: e_def)
    moreover have "(t * s) mod B < B" using B by simp
    ultimately show ?thesis by linarith
  qed
  have e_le: "e \<le> A"
  proof -
    have "e * B \<le> A * B" using eB_le ts_le by linarith
    then show ?thesis using B by (simp add: mult_le_cancel_right)
  qed
  have q: "q = sgn X * sgn Y * t"
    using s by (simp add: q_def signed_divide_int_def t_def A_def B_def abs_mult sgn_mult)
  have qs_abs: "\<bar>q * s\<bar> = t * s"
  proof (cases "X = 0")
    case True
    then show ?thesis by (simp add: q t_def A_def)
  next
    case False
    then have "\<bar>sgn X * sgn Y\<bar> = 1" using Y by (simp add: abs_mult)
    then show ?thesis using t0 s by (simp add: q abs_mult)
  qed
  have XY: "\<bar>X * Y\<bar> = A * B" by (simp add: abs_mult A_def B_def)
  show "\<bar>q * s\<bar> \<le> \<bar>X * Y\<bar>"
    using ts_le qs_abs XY by linarith
  have d: "d = sgn X * e"
  proof (cases "t = 0 \<or> X = 0")
    case True
    then have "t = 0" by (auto simp: t_def A_def)
    then show ?thesis by (simp add: d_def q e_def)
  next
    case False
    then have tpos: "0 < t" and X: "X \<noteq> 0" using t0 by auto
    have "sgn (q * s) = sgn X * sgn Y"
      using tpos s by (simp add: q sgn_mult)
    then have "d = sgn X * (sgn Y * sgn Y) * e"
      by (simp add: d_def signed_divide_int_def qs_abs e_def B_def)
    moreover have "sgn Y * sgn Y = 1" using Y by (simp add: sgn_if)
    ultimately show ?thesis by simp
  qed
  show "\<bar>d\<bar> \<le> \<bar>X\<bar>"
    using e_le e0 by (cases "X = 0") (simp_all add: d abs_mult A_def)
  show "X < 0 \<Longrightarrow> d \<le> 0"
    using e0 by (simp add: d mult_le_0_iff)
  show "0 \<le> X \<Longrightarrow> 0 \<le> d"
    using e0 by (simp add: d sgn_if)
  have diff: "\<bar>d - X\<bar> = A - e"
  proof (cases "X = 0")
    case True
    then have "A = 0" by (simp add: A_def)
    with e_le e0 have "e = 0" by simp
    then show ?thesis using True \<open>A = 0\<close> by (simp add: d)
  next
    case False
    have "X = sgn X * A"
      by (simp add: A_def sgn_mult_abs)
    then have "d - X = sgn X * e - sgn X * A"
      by (simp add: d)
    then have "d - X = sgn X * (e - A)"
      by (simp add: right_diff_distrib)
    then have "\<bar>d - X\<bar> = \<bar>e - A\<bar>"
      using False by (simp add: abs_mult)
    then show ?thesis using e_le by simp
  qed
  have "(A - e) * B < B + s"
    using ts_gt eB_gt by (simp add: algebra_simps)
  then show "\<bar>d - X\<bar> * \<bar>Y\<bar> < \<bar>Y\<bar> + s"
    by (simp add: diff B_def)
qed

subsection \<open>The approximations\<close>

lemma sint_neg16: "sint (x :: int16) \<noteq> - 32768 \<Longrightarrow> sint (fp_neg x) = - sint x"
proof -
  assume "sint x \<noteq> - 32768"
  then have "- 32768 \<le> - sint x" "- sint x \<le> 32767"
    using sint16_bounds [of x] by linarith+
  then have "sint (word_of_int (- sint x) :: int16) = - sint x"
    by (rule sint_narrow)
  then show ?thesis by (simp add: fp_neg_def)
qed

lemma fp_neg_eq_uminus: "fp_neg x = - x"
  by (simp add: fp_neg_def)

lemma fp_add_eq_plus: "fp_add x y = x + y"
  by (simp add: fp_add_def)

lemma fp_tanh_parts:
  "fp_tanh x p =
     seq (tanh_rational (if sint x < 0 then fp_neg x else x) p) (\<lambda>(one, r).
     Inr (tanh_clip one (if sint x < 0 then fp_neg r else r)))"
  by (auto simp: fp_tanh_def tanh_rational_def tanh_clip_def Let_def seq_def split: sum.splits)

lemma sdiv_mult_cancel: "0 < c \<Longrightarrow> (a * c) sdiv (b * c) = a sdiv (b::int)"
  by (simp add: signed_divide_int_def abs_mult sgn_mult)

lemma pow2_split3: "3 \<le> P \<Longrightarrow> (2::int) ^ nat P = 8 * 2 ^ nat (P - 3)"
proof -
  assume "3 \<le> P"
  then have "nat P = 3 + nat (P - 3)" by simp
  then have "(2::int) ^ nat P = 2 ^ (3 + nat (P - 3))" by simp
  then show ?thesis by (simp only: power_add) simp
qed

lemma pow2_split1: "1 \<le> P \<Longrightarrow> (2::int) ^ nat P = 2 * 2 ^ nat (P - 1)"
proof -
  assume "1 \<le> P"
  then have "nat P = 1 + nat (P - 1)" by simp
  then have "(2::int) ^ nat P = 2 ^ (1 + nat (P - 1))" by simp
  then show ?thesis by (simp only: power_add) simp
qed

lemma sint_pow2: 
  assumes "0 \<le> P" "P \<le> 14"
  shows "sint (word_of_int (2 ^ nat P) :: int16) = 2 ^ nat P"
proof (rule sint_narrow)
  have "(0::int) \<le> 2 ^ nat P" by simp
  then show "- 32768 \<le> (2::int) ^ nat P" by linarith
  have "(2::int) ^ nat P \<le> 2 ^ nat 14"
    using assms by (intro pow2_nat_le) simp_all
  then show "(2::int) ^ nat P \<le> 32767" by simp
qed

lemma sint_pow2_word:
  assumes "0 \<le> P" "P \<le> 14"
  shows "sint ((2 :: int16) ^ nat P) = 2 ^ nat P"
  using sint_pow2 [OF assms] by simp

lemma sdiv_bounds:
  assumes "0 < c" "- (m * c) \<le> a" "a \<le> m * c"
  shows "- m \<le> a sdiv c" "a sdiv (c::int) \<le> m"
proof -
  have "\<bar>a\<bar> \<le> m * c" using assms by linarith
  then have "\<bar>a\<bar> div c \<le> (m * c) div c"
    using assms(1) by (intro zdiv_mono1) simp_all
  then have "\<bar>a sdiv c\<bar> \<le> m"
    using assms(1) by (simp add: abs_sdiv_eq)
  then show "- m \<le> a sdiv c" "a sdiv c \<le> m" by linarith+
qed

lemma fp_mul_eighth:
  assumes "3 \<le> sint p" "sint p \<le> 14"
  shows "fp_mul v (word_of_int (2 ^ nat (sint p - 3))) p = Inr (word_of_int (sint v sdiv 8))"
proof -
  have c: "sint (word_of_int (2 ^ nat (sint p - 3)) :: int16) = 2 ^ nat (sint p - 3)"
    using assms by (intro sint_pow2) simp_all
  have "(sint v * 2 ^ nat (sint p - 3)) sdiv 2 ^ nat (sint p) = sint v sdiv 8"
    using assms sdiv_mult_cancel [of "2 ^ nat (sint p - 3)" "sint v" 8]
    by (simp add: pow2_split3 [of "sint p"])
  then show ?thesis
    using assms c by (simp only: fp_mul_ok)
qed

lemma fp_mul_half:
  assumes "1 \<le> sint p" "sint p \<le> 14"
  shows "fp_mul v (word_of_int (2 ^ nat (sint p - 1))) p = Inr (word_of_int (sint v sdiv 2))"
proof -
  have c: "sint (word_of_int (2 ^ nat (sint p - 1)) :: int16) = 2 ^ nat (sint p - 1)"
    using assms by (intro sint_pow2) simp_all
  have "(sint v * 2 ^ nat (sint p - 1)) sdiv 2 ^ nat (sint p) = sint v sdiv 2"
    using assms sdiv_mult_cancel [of "2 ^ nat (sint p - 1)" "sint v" 2]
    by (simp add: pow2_split1 [of "sint p"])
  then show ?thesis
    using assms c by (simp only: fp_mul_ok)
qed

lemma sint_sdiv8: "sint (word_of_int (sint (v :: int16) sdiv 8) :: int16) = sint v sdiv 8"
  using sdiv_bounds [of 8 4096 "sint v"] sint16_bounds [of v]
  by (intro sint_narrow) simp_all

lemma sint_sdiv2: "sint (word_of_int (sint (v :: int16) sdiv 2) :: int16) = sint v sdiv 2"
  using sdiv_bounds [of 2 16384 "sint v"] sint16_bounds [of v]
  by (intro sint_narrow) simp_all

lemma sdiv8_range: "- 4096 \<le> sint (v :: int16) sdiv 8" "sint (v :: int16) sdiv 8 \<le> 4096"
  using sdiv_bounds [of 8 4096 "sint v"] sint16_bounds [of v] by simp_all

lemma sdiv2_range: "- 16384 \<le> sint (v :: int16) sdiv 2" "sint (v :: int16) sdiv 2 \<le> 16383"
proof -
  show "- 16384 \<le> sint v sdiv 2"
    using sdiv_bounds [of 2 16384 "sint v"] sint16_bounds [of v] by simp
  have "\<bar>sint v sdiv 2\<bar> = \<bar>sint v\<bar> div 2" by (simp add: abs_sdiv_eq)
  moreover have "sint v sdiv 2 \<le> \<bar>sint v sdiv 2\<bar>" by simp
  moreover have "sint v \<le> 32767 \<Longrightarrow> 0 \<le> sint v \<Longrightarrow> \<bar>sint v\<bar> div 2 \<le> 16383" by simp
  moreover have "sint v < 0 \<Longrightarrow> sint v sdiv 2 \<le> 0"
    by (simp add: signed_divide_int_def sgn_if pos_imp_zdiv_nonneg_iff)
  ultimately show "sint v sdiv 2 \<le> 16383"
    using sint16_bounds [of v] by (cases "sint v < 0") simp_all
qed

lemma int_to_fp_one:
  assumes "0 \<le> sint p" "sint p \<le> 30"
  shows "int_to_fp 1 p = Inr (word_of_int (2 ^ nat (sint p)))"
proof -
  have "(2::int) ^ nat (sint p) \<le> 2 ^ nat 30"
    using assms by (intro pow2_nat_le) simp_all
  then have "\<bar>(2::int) ^ nat (sint p)\<bar> \<le> 2 ^ 30" by simp
  then show ?thesis
    using assms by (simp add: int_to_fp_def shl1_ok c_int_ok)
qed

lemma tanh_rational_eval:
  fixes x p :: int16
  assumes p: "3 \<le> sint p" "sint p \<le> 14"
  defines "S \<equiv> (2::int) ^ nat (sint p)"
  defines "XS \<equiv> sint (word_of_int ((sint x * sint x) sdiv S) :: int16)"
  defines "N \<equiv> S + XS sdiv 8"
  defines "D \<equiv> S + XS sdiv 2"
  shows "tanh_rational x p =
           (if D = 0 then Inl DivByZero
            else Inr (word_of_int S,
                      word_of_int ((sint x * sint (word_of_int ((N * S) sdiv D) :: int16)) sdiv S)))"
proof -
  define xs :: int16 where "xs = word_of_int ((sint x * sint x) sdiv S)"
  have XS: "XS = sint xs" by (simp add: XS_def xs_def)
  have S0: "0 < S" by (simp add: S_def)
  have S14: "S \<le> 16384"
  proof -
    have "(2::int) ^ nat (sint p) \<le> 2 ^ nat 14"
      using p by (intro pow2_nat_le) simp_all
    then show ?thesis by (simp add: S_def)
  qed
  have sS: "sint (word_of_int S :: int16) = S"
    using p unfolding S_def by (intro sint_pow2) simp_all
  have p': "0 \<le> sint p" "sint p \<le> 30" "1 \<le> sint p" "sint p \<le> 15" using p by simp_all
  have e: "shl1 (sint p - 3) = Inr (2 ^ nat (sint p - 3))"
    using p by (intro shl1_ok) simp_all
  have h: "shl1 (sint p - 1) = Inr (2 ^ nat (sint p - 1))"
    using p by (intro shl1_ok) simp_all
  have one: "int_to_fp 1 p = Inr (word_of_int S)"
    unfolding S_def using p'(1,2) by (rule int_to_fp_one)
  have m1: "fp_mul x x p = Inr xs"
    unfolding xs_def S_def using p'(1,2) by (rule fp_mul_ok)
  have m2: "fp_mul xs (word_of_int (2 ^ nat (sint p - 3))) p = Inr (word_of_int (sint xs sdiv 8))"
    using p by (rule fp_mul_eighth)
  have m3: "fp_mul xs (word_of_int (2 ^ nat (sint p - 1))) p = Inr (word_of_int (sint xs sdiv 2))"
    using p'(3) p(2) by (rule fp_mul_half)
  have num: "sint (fp_add (word_of_int S) (word_of_int (sint xs sdiv 8))) = N"
    unfolding fp_add_def sS sint_sdiv8 N_def XS
    using sdiv8_range [of xs] S0 S14 by (intro sint_narrow) linarith+
  have den: "sint (fp_add (word_of_int S) (word_of_int (sint xs sdiv 2))) = D"
    unfolding fp_add_def sS sint_sdiv2 D_def XS
    using sdiv2_range [of xs] S0 S14 by (intro sint_narrow) linarith+
  have dv: "fp_div (fp_add (word_of_int S) (word_of_int (sint xs sdiv 8)))
                   (fp_add (word_of_int S) (word_of_int (sint xs sdiv 2))) p =
            (if D = 0 then Inl DivByZero else Inr (word_of_int ((N * S) sdiv D)))"
    unfolding fp_div_cases [OF p'(1,4)] num den by (simp only: S_def)
  have m4: "fp_mul x rf p = Inr (word_of_int ((sint x * sint rf) sdiv S))" for rf
    unfolding S_def using p'(1,2) by (rule fp_mul_ok)
  show ?thesis
    unfolding tanh_rational_def e h one seq_Inr Let_def m1 m2 m3 dv
    by (simp add: m4)
qed

lemma sdiv_nonneg: "0 \<le> a \<Longrightarrow> 0 < b \<Longrightarrow> a sdiv b = a div (b::int)"
  by (cases "a = 0") (simp_all add: signed_divide_int_def)

lemma fp_neg_fp_neg [simp]: "fp_neg (fp_neg x) = x"
  by (simp add: fp_neg_def)

lemma tanh_clip_range:
  assumes "sint one = S" "0 \<le> S" "S \<le> 16384"
  shows "- S \<le> sint (tanh_clip one r)" "sint (tanh_clip one r) \<le> S"
proof -
  have "sint one \<noteq> - 32768" using assms by simp
  then have n: "sint (fp_neg one) = - S" using assms(1) by (simp add: sint_neg16)
  show "- S \<le> sint (tanh_clip one r)" "sint (tanh_clip one r) \<le> S"
    using assms n by (auto simp: tanh_clip_def Let_def)
qed

lemma tanh_clip_abs:
  assumes "sint one = S" "0 \<le> S" "S \<le> 16384"
  shows "\<bar>sint (tanh_clip one r)\<bar> \<le> \<bar>sint r\<bar>"
proof -
  have "sint one \<noteq> - 32768" using assms by simp
  then have n: "sint (fp_neg one) = - S" using assms(1) by (simp add: sint_neg16)
  show ?thesis
    using assms n by (auto simp: tanh_clip_def Let_def)
qed

lemma tanh_clip_odd:
  assumes "sint one = S" "0 \<le> S" "S \<le> 16384" "sint r \<noteq> - 32768"
  shows "tanh_clip one (fp_neg r) = fp_neg (tanh_clip one r)"
proof -
  have "sint one \<noteq> - 32768" using assms by simp
  then have n: "sint (fp_neg one) = - S" using assms(1) by (simp add: sint_neg16)
  have r: "sint (fp_neg r) = - sint r" using assms(4) by (rule sint_neg16)
  show ?thesis
    using assms(1,2,3) n r by (auto simp: tanh_clip_def Let_def)
qed


lemma tanh_rational_faults:
  assumes "3 \<le> sint p" "sint p \<le> 14"
  shows "tanh_rational x p = Inl DivByZero \<or>
         (\<exists>r. tanh_rational x p = Inr (word_of_int (2 ^ nat (sint p)), r))"
  using tanh_rational_eval [OF assms, of x] by (simp split: if_splits)

lemma div_le_of_le_mult:
  fixes a b c :: int
  assumes "0 < b" "a \<le> c * b"
  shows "a div b \<le> c"
proof -
  have "a div b \<le> (c * b) div b" using assms by (intro zdiv_mono1)
  then show ?thesis using assms(1) by simp
qed

lemma tanh_rational_clean:
  fixes x p :: int16
  assumes p: "3 \<le> sint p" "sint p \<le> 14"
    and x: "0 \<le> sint x" "(sint x * sint x) sdiv 2 ^ nat (sint p) \<le> 32767"
  shows "\<exists>r. tanh_rational x p = Inr (word_of_int (2 ^ nat (sint p)), r) \<and>
             0 \<le> sint r \<and> sint r \<le> sint x"
proof -
  define S :: int where "S = 2 ^ nat (sint p)"
  define Q where "Q = (sint x * sint x) div S"
  define N where "N = S + Q div 8"
  define D where "D = S + Q div 2"
  define F where "F = (N * S) div D"
  define R where "R = (sint x * F) div S"
  have S0: "0 < S" by (simp add: S_def)
  have S14: "S \<le> 16384"
  proof -
    have "(2::int) ^ nat (sint p) \<le> 2 ^ nat 14"
      using p by (intro pow2_nat_le) simp_all
    then show ?thesis by (simp add: S_def)
  qed
  have xx: "0 \<le> sint x * sint x" by simp
  have Qs: "(sint x * sint x) sdiv S = Q"
    using xx S0 by (simp add: Q_def sdiv_nonneg)
  have Q0: "0 \<le> Q" using xx S0 by (simp add: Q_def pos_imp_zdiv_nonneg_iff)
  have Q1: "Q \<le> 32767" using x(2) Qs by (simp add: S_def)
  have XS: "sint (word_of_int Q :: int16) = Q"
    using Q0 Q1 by (intro sint_narrow) linarith+
  have Q8: "Q sdiv 8 = Q div 8" using Q0 by (simp add: sdiv_nonneg)
  have Q2: "Q sdiv 2 = Q div 2" using Q0 by (simp add: sdiv_nonneg)
  have Q80: "0 \<le> Q div 8" using Q0 by (simp add: pos_imp_zdiv_nonneg_iff)
  have "Q div 8 \<le> Q div 2" using Q0 by (intro zdiv_mono2) simp_all
  then have ND: "N \<le> D" unfolding N_def D_def by linarith
  have N0: "0 < N" unfolding N_def using Q80 S0 by linarith
  have D0: "0 < D" using N0 ND by linarith
  have NS0: "0 \<le> N * S" using N0 S0 by simp
  have Fs: "(N * S) sdiv D = F" using NS0 D0 by (simp add: F_def sdiv_nonneg)
  have F0: "0 \<le> F" using NS0 D0 by (simp add: F_def pos_imp_zdiv_nonneg_iff)
  have F1: "F \<le> S"
    unfolding F_def using D0
  proof (rule div_le_of_le_mult)
    show "N * S \<le> S * D" using ND S0 by (simp add: mult.commute)
  qed
  have sF: "sint (word_of_int F :: int16) = F"
    using F0 F1 S14 by (intro sint_narrow) linarith+
  have xF0: "0 \<le> sint x * F" using x(1) F0 by simp
  have Rs: "(sint x * F) sdiv S = R" using xF0 S0 by (simp add: R_def sdiv_nonneg)
  have R0: "0 \<le> R" using xF0 S0 by (simp add: R_def pos_imp_zdiv_nonneg_iff)
  have R1: "R \<le> sint x"
    unfolding R_def using S0
  proof (rule div_le_of_le_mult)
    show "sint x * F \<le> sint x * S" using x(1) F1 by (intro mult_left_mono)
  qed
  have sR: "sint (word_of_int R :: int16) = R"
    using R0 R1 sint16_bounds(2) [of x] by (intro sint_narrow) linarith+
  have "tanh_rational x p = Inr (word_of_int S, word_of_int R)"
    using tanh_rational_eval [OF p, of x] D0
    by (simp add: S_def [symmetric] Qs XS Q8 Q2 N_def [symmetric] D_def [symmetric] Fs sF Rs)
  then show ?thesis using R0 R1 sR by (simp add: S_def)
qed

lemma S14: 
  assumes "0 \<le> P" "P \<le> 14"
  shows "(2::int) ^ nat P \<le> 16384"
proof -
  have "(2::int) ^ nat P \<le> 2 ^ nat 14"
    using assms by (intro pow2_nat_le) simp_all
  then show ?thesis by simp
qed

lemma fp_tanh_zero:
  assumes "3 \<le> sint p" "sint p \<le> 14"
  shows "fp_tanh 0 p = Inr 0"
proof -
  have "0 \<le> sint p" using assms by simp
  then have one: "sint (word_of_int (2 ^ nat (sint p)) :: int16) = 2 ^ nat (sint p)"
    using assms(2) by (rule sint_pow2)
  have "tanh_rational 0 p = Inr (word_of_int (2 ^ nat (sint p)), 0)"
    using tanh_rational_eval [OF assms, of 0] by simp
  moreover have "tanh_clip (word_of_int (2 ^ nat (sint p))) 0 = 0"
    using tanh_clip_range [OF one, of 0] one S14 [of "sint p"] assms
    by (simp add: tanh_clip_def Let_def sint_neg16)
  ultimately show ?thesis
    by (simp add: fp_tanh_parts)
qed


lemma fp_tanh_range:
  fixes x p :: int16
  assumes p: "3 \<le> sint p" "sint p \<le> 14"
  shows "fp_tanh x p = Inl DivByZero \<or>
         (\<exists>t. fp_tanh x p = Inr t \<and>
              - (2 ^ nat (sint p)) \<le> sint t \<and> sint t \<le> 2 ^ nat (sint p))"
proof -
  have p0: "0 \<le> sint p" using p by simp
  have one: "sint (word_of_int (2 ^ nat (sint p)) :: int16) = 2 ^ nat (sint p)"
    using p0 p(2) by (rule sint_pow2)
  have S0: "(0::int) \<le> 2 ^ nat (sint p)" by simp
  note rng = tanh_clip_range [OF one S0 S14 [OF p0 p(2)]]
  show ?thesis
    using tanh_rational_faults [OF p, of "if sint x < 0 then fp_neg x else x"] rng
    by (auto simp: fp_tanh_parts [of x])
qed



lemma fp_tanh_clean:
  fixes x p :: int16
  assumes p: "3 \<le> sint p" "sint p \<le> 14"
    and c: "(sint x * sint x) sdiv 2 ^ nat (sint p) \<le> 32767"
  shows "\<exists>t. fp_tanh x p = Inr t \<and> fp_tanh (fp_neg x) p = Inr (fp_neg t) \<and>
            sint (fp_neg t) = - sint t \<and> \<bar>sint t\<bar> \<le> \<bar>sint x\<bar>"
proof -
  define S :: int where "S = 2 ^ nat (sint p)"
  define one :: int16 where "one = word_of_int S"
  have p0: "0 \<le> sint p" using p by simp
  have one: "sint one = S"
    unfolding one_def S_def using p0 p(2) by (rule sint_pow2)
  have S0: "0 \<le> S" by (simp add: S_def)
  have Sp: "0 < S" by (simp add: S_def)
  have S1: "S \<le> 16384" unfolding S_def using p0 p(2) by (rule S14)
  note rng = tanh_clip_range [OF one S0 S1]
  have x: "sint x \<noteq> - 32768"
  proof
    assume m: "sint x = - 32768"
    have "(1073741824::int) div S \<le> 32767"
      using c Sp by (simp add: m S_def sdiv_nonneg)
    moreover have "(1073741824::int) div 16384 \<le> 1073741824 div S"
      using Sp S1 by (intro zdiv_mono2) simp_all
    ultimately show False by simp
  qed
  define a where "a = (if sint x < 0 then fp_neg x else x)"
  have a0: "0 \<le> sint a" using x by (simp add: a_def sint_neg16)
  have aa: "sint a * sint a = sint x * sint x" using x by (simp add: a_def sint_neg16)
  from tanh_rational_clean [OF p a0] c aa
  obtain r where r: "tanh_rational a p = Inr (one, r)" "0 \<le> sint r" "sint r \<le> sint a"
    by (auto simp: one_def S_def)
  have rm: "sint r \<noteq> - 32768" using r(2) by simp
  have ax: "sint a = \<bar>sint x\<bar>" using x by (simp add: a_def sint_neg16)
  have ab: "\<bar>sint (tanh_clip one r)\<bar> \<le> \<bar>sint x\<bar>"
    using tanh_clip_abs [OF one S0 S1, of r] r(2,3) ax by linarith
  have neg_clip: "sint (fp_neg (tanh_clip one v)) = - sint (tanh_clip one v)" for v
    using rng(1) [of v] S1 by (intro sint_neg16) linarith
  consider "sint x = 0" | "0 < sint x" | "sint x < 0" by linarith
  then show ?thesis
  proof cases
    case 1
    then have "x = 0" by simp
    then show ?thesis using fp_tanh_zero [OF p] by (simp add: fp_neg_def)
  next
    case 2
    then have n: "sint (fp_neg x) < 0" using x by (simp add: sint_neg16)
    have "a = x" using 2 by (simp add: a_def)
    then show ?thesis
      using r(1) 2 n tanh_clip_odd [OF one S0 S1 rm] neg_clip ab
      by (simp add: fp_tanh_parts [of x] fp_tanh_parts [of "fp_neg x"])
  next
    case 3
    then have n: "\<not> sint (fp_neg x) < 0" using x by (simp add: sint_neg16)
    have "a = fp_neg x" using 3 by (simp add: a_def)
    then show ?thesis
      using r(1) 3 n tanh_clip_odd [OF one S0 S1 rm] neg_clip ab
      by (simp add: fp_tanh_parts [of x] fp_tanh_parts [of "fp_neg x"])
  qed
qed

lemma fp_sigmoid_eval:
  fixes x p :: int16
  assumes p: "3 \<le> sint p" "sint p \<le> 14"
  shows "fp_sigmoid x p =
           seq (fp_tanh (word_of_int (sint (if sint x < 0 then fp_neg x else x) sdiv 2)) p) (\<lambda>t.
             Inr (if sint x < 0
                  then word_of_int (2 ^ nat (sint p) -
                         sint (word_of_int (sint (fp_add t (word_of_int (2 ^ nat (sint p)))) sdiv 2) :: int16))
                  else word_of_int (sint (fp_add t (word_of_int (2 ^ nat (sint p)))) sdiv 2)))"
proof -
  have p0: "0 \<le> sint p" "sint p \<le> 30" "1 \<le> sint p" using p by simp_all
  have s: "shl1 (sint p) = Inr (2 ^ nat (sint p))"
    using p0(1,2) by (rule shl1_ok)
  have h: "shl1 (sint p - 1) = Inr (2 ^ nat (sint p - 1))"
    using p by (intro shl1_ok) simp_all
  have one: "sint (word_of_int (2 ^ nat (sint p)) :: int16) = 2 ^ nat (sint p)"
    using p0(1) p(2) by (rule sint_pow2)
  note mh = fp_mul_half [OF p0(3) p(2)]
  show ?thesis
    unfolding fp_sigmoid_def Let_def s h seq_Inr mh one
    by (simp add: seq_def split: sum.splits)
qed

lemma half_sum_range:
  fixes t S :: int
  assumes "- S \<le> t" "t \<le> S"
  shows "(t + S) sdiv 2 = (t + S) div 2" "0 \<le> (t + S) div 2" "(t + S) div 2 \<le> S"
proof -
  have "0 \<le> t + S" using assms by linarith
  then show "(t + S) sdiv 2 = (t + S) div 2" by (simp add: sdiv_nonneg)
  show "0 \<le> (t + S) div 2" "(t + S) div 2 \<le> S" using assms by linarith+
qed

lemma half_arg_small:
  fixes x :: int16
  assumes "sint x \<noteq> - 32768"
  defines "h \<equiv> (word_of_int (sint (if sint x < 0 then fp_neg x else x) sdiv 2) :: int16)"
  shows "\<bar>sint h\<bar> \<le> 16383"
proof -
  define a where "a = (if sint x < 0 then fp_neg x else x)"
  have "sint a = \<bar>sint x\<bar>" using assms(1) by (simp add: a_def sint_neg16)
  then have a: "0 \<le> sint a" "sint a \<le> 32767"
    using sint16_bounds [of x] assms(1) by linarith+
  have "sint h = sint a sdiv 2" unfolding h_def a_def [symmetric] by (rule sint_sdiv2)
  also have "\<dots> = sint a div 2" using a(1) by (simp add: sdiv_nonneg)
  finally show ?thesis using a by simp
qed

lemma fp_tanh_small_arg:
  fixes h p :: int16
  assumes p: "sint p = 14" and h: "\<bar>sint h\<bar> \<le> 16383"
  shows "\<exists>t. fp_tanh h p = Inr t \<and> \<bar>sint t\<bar> \<le> 16383"
proof -
  have sq: "sint h * sint h \<le> 16383 * 16383"
  proof -
    have "\<bar>sint h\<bar> * \<bar>sint h\<bar> \<le> 16383 * 16383"
      using h by (intro mult_mono) simp_all
    then show ?thesis by (simp add: abs_mult_self_eq)
  qed
  have "(sint h * sint h) sdiv 2 ^ nat (sint p) = (sint h * sint h) div 16384"
    by (simp add: p sdiv_nonneg)
  also have "\<dots> \<le> 32767" using sq by simp
  finally have c: "(sint h * sint h) sdiv 2 ^ nat (sint p) \<le> 32767" .
  have p': "3 \<le> sint p" "sint p \<le> 14" using p by simp_all
  from fp_tanh_clean [OF p' c] h show ?thesis by fastforce
qed

lemma fp_sigmoid_via_tanh:
  fixes x p :: int16
  assumes p: "3 \<le> sint p" "sint p \<le> 14"
    and ok: "sint p \<le> 13 \<or> sint x \<noteq> - 32768"
  defines "S \<equiv> (2::int) ^ nat (sint p)"
  defines "h \<equiv> (word_of_int (sint (if sint x < 0 then fp_neg x else x) sdiv 2) :: int16)"
  shows "fp_tanh h p = Inl DivByZero \<and> fp_sigmoid x p = Inl DivByZero \<or>
         (\<exists>t s. fp_tanh h p = Inr t \<and> - S \<le> sint t \<and> sint t \<le> S \<and>
            fp_sigmoid x p = Inr s \<and>
            sint s = (if sint x < 0 then S - (sint t + S) div 2 else (sint t + S) div 2))"
proof -
  have p0: "0 \<le> sint p" using p by simp
  have S1: "S \<le> 16384" unfolding S_def using p0 p(2) by (rule S14)
  have S0: "0 < S" by (simp add: S_def)
  have one: "sint (word_of_int S :: int16) = S"
    unfolding S_def using p0 p(2) by (rule sint_pow2)
  note ev = fp_sigmoid_eval [OF p, of x, folded S_def h_def]
  from fp_tanh_range [OF p, of h, folded S_def]
  consider "fp_tanh h p = Inl DivByZero"
    | t where "fp_tanh h p = Inr t" "- S \<le> sint t" "sint t \<le> S"
    by blast
  then show ?thesis
  proof cases
    case 1
    then show ?thesis by (simp add: ev)
  next
    case (2 t)
    note hs = half_sum_range [OF 2(2,3)]
    have fits: "sint t + S \<le> 32767"
    proof (cases "sint p \<le> 13")
      case True
      have "(2::int) ^ nat (sint p) \<le> 2 ^ nat 13"
        using p True by (intro pow2_nat_le) simp_all
      then have "S \<le> 8192" by (simp add: S_def)
      with 2(3) show ?thesis by linarith
    next
      case False
      then have p14: "sint p = 14" and x: "sint x \<noteq> - 32768" using p ok by simp_all
      from fp_tanh_small_arg [OF p14 half_arg_small [OF x], folded h_def] 2(1)
      have "\<bar>sint t\<bar> \<le> 16383" by simp
      with S1 show ?thesis by linarith
    qed
    have add: "sint (fp_add t (word_of_int S)) = sint t + S"
      unfolding fp_add_def one using 2(2) fits S1 S0 by (intro sint_narrow) linarith+
    have res: "sint (word_of_int ((sint t + S) sdiv 2) :: int16) = (sint t + S) div 2"
      unfolding hs(1) using hs(2,3) S1 by (intro sint_narrow) linarith+
    have inv: "sint (word_of_int (S - (sint t + S) div 2) :: int16) = S - (sint t + S) div 2"
      using hs(2,3) S1 by (intro sint_narrow) linarith+
    have "fp_sigmoid x p =
            Inr (if sint x < 0 then word_of_int (S - (sint t + S) div 2)
                 else word_of_int ((sint t + S) sdiv 2))"
      unfolding ev 2(1) seq_Inr add res ..
    then show ?thesis
      using 2 res inv by (cases "sint x < 0") (simp_all only: if_True if_False sum.inject simp_thms ex_simps)
  qed
qed

lemma sdiv_minus_left: "(- a) sdiv b = - (a sdiv (b::int))"
  by (simp add: signed_divide_int_def)

lemma fp_sigmoid_bounds:
  fixes x p :: int16
  assumes p: "3 \<le> sint p" "sint p \<le> 13"
  shows "fp_sigmoid x p = Inl DivByZero \<or>
         (\<exists>s. fp_sigmoid x p = Inr s \<and> 0 \<le> sint s \<and> sint s \<le> 2 ^ nat (sint p))"
proof -
  have p14: "sint p \<le> 14" using p by simp
  have ok: "sint p \<le> 13 \<or> sint x \<noteq> - 32768" using p by simp
  show ?thesis
    using fp_sigmoid_via_tanh [OF p(1) p14 ok]
  proof (elim disjE conjE exE)
    assume "fp_sigmoid x p = Inl DivByZero"
    then show ?thesis by simp
  next
    fix t s
    assume r: "- (2 ^ nat (sint p)) \<le> sint t" "sint t \<le> 2 ^ nat (sint p)"
      and s: "fp_sigmoid x p = Inr s"
      and v: "sint s = (if sint x < 0 then 2 ^ nat (sint p) - (sint t + 2 ^ nat (sint p)) div 2
                        else (sint t + 2 ^ nat (sint p)) div 2)"
    note hs = half_sum_range [OF r]
    have "0 \<le> sint s \<and> sint s \<le> 2 ^ nat (sint p)"
      unfolding v using hs(2,3) by (cases "sint x < 0") simp_all
    with s show ?thesis by simp
  qed
qed

lemma fp_sigmoid_clean:
  fixes x p :: int16
  assumes p: "3 \<le> sint p" "sint p \<le> 13"
    and c: "((sint x sdiv 2) * (sint x sdiv 2)) sdiv 2 ^ nat (sint p) \<le> 32767"
  shows "\<exists>s. fp_sigmoid x p = Inr s \<and> 0 \<le> sint s \<and> sint s \<le> 2 ^ nat (sint p)"
proof -
  define S :: int where "S = 2 ^ nat (sint p)"
  have p14: "sint p \<le> 14" using p by simp
  have ok: "sint p \<le> 13 \<or> sint x \<noteq> - 32768" using p by simp
  have Sp: "0 < S" by (simp add: S_def)
  have S1: "S \<le> 8192"
  proof -
    have "(2::int) ^ nat (sint p) \<le> 2 ^ nat 13"
      using p by (intro pow2_nat_le) simp_all
    then show ?thesis by (simp add: S_def)
  qed
  have x: "sint x \<noteq> - 32768"
  proof
    assume m: "sint x = - 32768"
    have "(- 32768 :: int) sdiv 2 = - 16384" by (simp add: signed_divide_int_def)
    then have "(268435456::int) div S \<le> 32767"
      using c Sp by (simp add: m S_def sdiv_nonneg)
    moreover have "(268435456::int) div 8192 \<le> 268435456 div S"
      using Sp S1 by (intro zdiv_mono2) simp_all
    ultimately show False by simp
  qed
  define a where "a = (if sint x < 0 then fp_neg x else x)"
  define h :: int16 where "h = word_of_int (sint a sdiv 2)"
  have h: "sint h = sint a sdiv 2" unfolding h_def by (rule sint_sdiv2)
  have "sint a = sint x \<or> sint a = - sint x" using x by (simp add: a_def sint_neg16)
  then have "sint h * sint h = (sint x sdiv 2) * (sint x sdiv 2)"
    unfolding h by (auto simp: sdiv_minus_left)
  with c have "(sint h * sint h) sdiv 2 ^ nat (sint p) \<le> 32767" by simp
  from fp_tanh_clean [OF p(1) p14 this] obtain t where "fp_tanh h p = Inr t" by blast
  with fp_sigmoid_via_tanh [OF p(1) p14 ok, folded a_def h_def]
  obtain s where "fp_sigmoid x p = Inr s" by auto
  with fp_sigmoid_bounds [OF p, of x] show ?thesis by auto
qed

lemma fp_sigmoid_zero:
  fixes p :: int16
  assumes p: "3 \<le> sint p" "sint p \<le> 14"
  shows "fp_sigmoid 0 p = Inr (word_of_int (2 ^ nat (sint p - 1)))"
proof -
  have "(2::int) ^ nat (sint p) sdiv 2 = 2 ^ nat (sint p - 1)"
    using p by (simp add: pow2_split1 [of "sint p"] sdiv_nonneg)
  then show ?thesis
    using p by (simp add: fp_sigmoid_eval [OF p] fp_tanh_zero [OF p] fp_add_def
        sint_pow2_word)
qed

lemma fp_sigmoid_complement:
  fixes x p :: int16
  assumes p: "3 \<le> sint p" "sint p \<le> 14"
    and x: "sint x \<noteq> - 32768" and s: "fp_sigmoid x p = Inr s"
  shows "\<exists>s'. fp_sigmoid (fp_neg x) p = Inr s' \<and> sint s + sint s' = 2 ^ nat (sint p)"
proof -
  define S :: int where "S = 2 ^ nat (sint p)"
  consider "sint x = 0" | "sint x \<noteq> 0" by blast
  then show ?thesis
  proof cases
    case 1
    then have x0: "x = 0" by simp
    have "sint (word_of_int (2 ^ nat (sint p - 1)) :: int16) = 2 ^ nat (sint p - 1)"
      using p by (intro sint_pow2) simp_all
    then show ?thesis
      using s p fp_sigmoid_zero [OF p] by (auto simp: x0 fp_neg_def pow2_split1 [of "sint p"])
  next
    case 2
    define a where "a = (if sint x < 0 then fp_neg x else x)"
    have nx: "sint (fp_neg x) = - sint x" using x by (rule sint_neg16)
    have okx: "sint p \<le> 13 \<or> sint x \<noteq> - 32768" using x by simp
    have okn: "sint p \<le> 13 \<or> sint (fp_neg x) \<noteq> - 32768"
      using nx sint16_bounds(2) [of x] by simp
    have a': "(if sint (fp_neg x) < 0 then fp_neg (fp_neg x) else fp_neg x) = a"
      using 2 nx by (simp add: a_def)
    have flip: "sint (fp_neg x) < 0 \<longleftrightarrow> \<not> sint x < 0"
      using 2 nx by linarith
    from fp_sigmoid_via_tanh [OF p okx, folded a_def] s
    obtain t where t: "fp_tanh (word_of_int (sint a sdiv 2)) p = Inr t"
      and sv: "sint s = (if sint x < 0 then S - (sint t + S) div 2 else (sint t + S) div 2)"
      by (auto simp: S_def)
    from fp_sigmoid_via_tanh [OF p okn] t
    obtain s' where "fp_sigmoid (fp_neg x) p = Inr s'"
      and "sint s' = (if sint (fp_neg x) < 0 then S - (sint t + S) div 2 else (sint t + S) div 2)"
      unfolding a' by (auto simp: S_def)
    then show ?thesis
      using sv flip by (auto simp: S_def)
  qed
qed

lemma fp_sigmoid_branches:
  fixes x p :: int16
  assumes p: "3 \<le> sint p" "sint p \<le> 14"
  shows "0 \<le> sint x \<Longrightarrow> fp_tanh (word_of_int (sint x sdiv 2)) p = Inr t \<Longrightarrow>
           \<exists>s. fp_sigmoid x p = Inr s \<and> sint s = (sint t + 2 ^ nat (sint p)) sdiv 2"
    and "sint x < 0 \<Longrightarrow> sint x \<noteq> - 32768 \<Longrightarrow>
           fp_tanh (word_of_int ((- sint x) sdiv 2)) p = Inr t \<Longrightarrow>
           \<exists>s. fp_sigmoid x p = Inr s \<and>
               sint s = 2 ^ nat (sint p) - (sint t + 2 ^ nat (sint p)) sdiv 2"
proof -
  assume x: "0 \<le> sint x" and t: "fp_tanh (word_of_int (sint x sdiv 2)) p = Inr t"
  have ok: "sint p \<le> 13 \<or> sint x \<noteq> - 32768" using x by simp
  from fp_sigmoid_via_tanh [OF p ok] x t
  obtain s where s: "fp_sigmoid x p = Inr s" "sint s = (sint t + 2 ^ nat (sint p)) div 2"
    and r: "- (2 ^ nat (sint p)) \<le> sint t" "sint t \<le> 2 ^ nat (sint p)"
    by auto
  show "\<exists>s. fp_sigmoid x p = Inr s \<and> sint s = (sint t + 2 ^ nat (sint p)) sdiv 2"
    using s half_sum_range(1) [OF r] by simp
next
  assume x: "sint x < 0" "sint x \<noteq> - 32768"
    and t: "fp_tanh (word_of_int ((- sint x) sdiv 2)) p = Inr t"
  have ok: "sint p \<le> 13 \<or> sint x \<noteq> - 32768" using x by simp
  have "sint (fp_neg x) = - sint x" using x(2) by (rule sint_neg16)
  with fp_sigmoid_via_tanh [OF p ok] x t
  obtain s where s: "fp_sigmoid x p = Inr s"
      "sint s = 2 ^ nat (sint p) - (sint t + 2 ^ nat (sint p)) div 2"
    and r: "- (2 ^ nat (sint p)) \<le> sint t" "sint t \<le> 2 ^ nat (sint p)"
    by auto
  show "\<exists>s. fp_sigmoid x p = Inr s \<and>
          sint s = 2 ^ nat (sint p) - (sint t + 2 ^ nat (sint p)) sdiv 2"
    using s half_sum_range(1) [OF r] by simp
qed

lemma fp_div_no_shift_fault:
  assumes "0 \<le> sint p" "sint p \<le> 30"
  shows "fp_div x y p \<noteq> Inl ShiftNegative \<and> fp_div x y p \<noteq> Inl ShiftTooWide"
  using assms
  by (auto simp: fp_div_def shl1_ok c_int_def c_div_def seq_def split: sum.splits if_splits)

lemma fp_tanh_no_shift_fault:
  assumes p: "3 \<le> sint p" "sint p \<le> 30"
  shows "fp_tanh x p \<noteq> Inl ShiftNegative \<and> fp_tanh x p \<noteq> Inl ShiftTooWide"
proof -
  have p0: "0 \<le> sint p" using p by simp
  have e: "shl1 (sint p - 3) = Inr (2 ^ nat (sint p - 3))"
    using p by (intro shl1_ok) simp_all
  have h: "shl1 (sint p - 1) = Inr (2 ^ nat (sint p - 1))"
    using p by (intro shl1_ok) simp_all
  note one = int_to_fp_one [OF p0 p(2)]
  note m = fp_mul_ok [OF p0 p(2)]
  show ?thesis
    using fp_div_no_shift_fault [OF p0 p(2)]
    by (auto simp: fp_tanh_def e h one m Let_def seq_def split: sum.splits)
qed

lemma fp_sigmoid_no_shift_fault:
  assumes p: "3 \<le> sint p" "sint p \<le> 30"
  shows "fp_sigmoid x p \<noteq> Inl ShiftNegative \<and> fp_sigmoid x p \<noteq> Inl ShiftTooWide"
proof -
  have p0: "0 \<le> sint p" using p by simp
  have s: "shl1 (sint p) = Inr (2 ^ nat (sint p))"
    using p by (intro shl1_ok) simp_all
  have h: "shl1 (sint p - 1) = Inr (2 ^ nat (sint p - 1))"
    using p by (intro shl1_ok) simp_all
  note m = fp_mul_ok [OF p0 p(2)]
  show ?thesis
    using fp_tanh_no_shift_fault [OF p]
    by (auto simp: fp_sigmoid_def s h m Let_def seq_def split: sum.splits)
qed

lemma fp_tanh_negative_shift:
  assumes "sint p < 3"
  shows "fp_tanh x p = Inl ShiftNegative"
  using assms by (simp add: fp_tanh_def shl1_def Let_def)

lemma fp_sigmoid_negative_shift:
  assumes p: "sint p < 3"
  shows "fp_sigmoid x p = Inl ShiftNegative"
proof -
  consider "sint p < 0" | "sint p = 0" | "1 \<le> sint p"
    by linarith
  then show ?thesis
  proof cases
    case 1
    then show ?thesis by (simp add: fp_sigmoid_def shl1_def Let_def)
  next
    case 2
    then show ?thesis by (simp add: fp_sigmoid_def shl1_def Let_def)
  next
    case 3
    then have p0: "0 \<le> sint p" "sint p \<le> 30" using p by simp_all
    have s: "shl1 (sint p) = Inr (2 ^ nat (sint p))"
      using p0 by (rule shl1_ok)
    have h: "shl1 (sint p - 1) = Inr (2 ^ nat (sint p - 1))"
      using 3 p by (intro shl1_ok) simp_all
    show ?thesis
      by (simp add: fp_sigmoid_def s h Let_def fp_mul_ok [OF p0] fp_tanh_negative_shift [OF p])
  qed
qed

lemma fp_tanh_wide_shift:
  assumes "30 < sint p"
  shows "fp_tanh x p = Inl ShiftTooWide"
proof -
  consider "34 \<le> sint p" | "sint p = 33 \<or> sint p = 32" | "sint p = 31"
    using assms by linarith
  then show ?thesis
  proof cases
    case 1
    then show ?thesis by (simp add: fp_tanh_def shl1_def Let_def)
  next
    case 2
    then show ?thesis by (auto simp: fp_tanh_def shl1_def Let_def)
  next
    case 3
    then show ?thesis by (simp add: fp_tanh_def shl1_def Let_def int_to_fp_def)
  qed
qed

lemma fp_sigmoid_wide_shift:
  assumes "30 < sint p"
  shows "fp_sigmoid x p = Inl ShiftTooWide"
  using assms by (simp add: fp_sigmoid_def shl1_def Let_def)

lemmas kernel_eval =
  fp_tanh_def fp_sigmoid_def fp_mul_def fp_div_def int_to_fp_def fp_add_def fp_neg_def
  seq_def shl1_def c_int_def c_div_def signed_divide_int_def Let_def

lemma exp_iter_fault: "exp_iter x p n = Inl e \<Longrightarrow> exp_iter x p (n + d) = Inl e"
  by (induction d) simp_all

lemma exp_iter_fault_le: "exp_iter x p n = Inl e \<Longrightarrow> n \<le> m \<Longrightarrow> exp_iter x p m = Inl e"
  using exp_iter_fault [of x p n e "m - n"] by simp

lemma exp_loop_iter:
  "i = int n + 1 \<Longrightarrow> exp_iter x p n = Inr st \<Longrightarrow>
   exp_loop T x p i st = Inr r \<longleftrightarrow>
     (\<exists>m acc fct prev. n \<le> m \<and> exp_iter x p m = Inr (acc, fct, prev, r) \<and>
        \<not> (int m + 1 < T \<and> prev \<noteq> r) \<and>
        (\<forall>j. n \<le> j \<and> j < m \<longrightarrow>
           (\<exists>a f q s. exp_iter x p j = Inr (a, f, q, s) \<and> int j + 1 < T \<and> q \<noteq> s)))"
proof (induction T x p i st arbitrary: n rule: exp_loop.induct)
  case (1 T x p i st)
  obtain acc fct prev res where st: "st = (acc, fct, prev, res)"
    by (cases st) auto
  let ?run = "i < T \<and> prev \<noteq> res"
  let ?R = "\<lambda>n. \<exists>m acc fct prev. n \<le> m \<and> exp_iter x p m = Inr (acc, fct, prev, r) \<and>
        \<not> (int m + 1 < T \<and> prev \<noteq> r) \<and>
        (\<forall>j. n \<le> j \<and> j < m \<longrightarrow>
           (\<exists>a f q s. exp_iter x p j = Inr (a, f, q, s) \<and> int j + 1 < T \<and> q \<noteq> s))"
  note i = \<open>i = int n + 1\<close>
  note it = \<open>exp_iter x p n = Inr st\<close>
  show ?case
  proof (cases ?run)
    case False
    then have loop: "exp_loop T x p i st = Inr res"
      by (subst exp_loop.simps) (auto simp: st)
    have "?R n \<longleftrightarrow> r = res"
    proof
      assume "?R n"
      then obtain m acc' fct' prev' where m: "n \<le> m"
        "exp_iter x p m = Inr (acc', fct', prev', r)"
        "\<forall>j. n \<le> j \<and> j < m \<longrightarrow>
           (\<exists>a f q s. exp_iter x p j = Inr (a, f, q, s) \<and> int j + 1 < T \<and> q \<noteq> s)"
        by blast
      have "m = n"
      proof (rule ccontr)
        assume "m \<noteq> n"
        then have "n < m" using m(1) by simp
        with m(3) obtain a f q s where "exp_iter x p n = Inr (a, f, q, s)" "int n + 1 < T" "q \<noteq> s"
          by blast
        with it st False i show False by simp
      qed
      with m(2) it st show "r = res" by simp
    next
      assume "r = res"
      then show "?R n"
        using it st False i by (intro exI [of _ n]) auto
    qed
    with loop show ?thesis by auto
  next
    case True
    show ?thesis
    proof (cases "exp_body x p i st")
      case (Inl e)
      then have loop: "exp_loop T x p i st = Inl e"
        using True by (subst exp_loop.simps) (simp add: st)
      have next_fault: "exp_iter x p (Suc n) = Inl e"
        using it Inl i by simp
      have "\<not> ?R n"
      proof
        assume "?R n"
        then obtain m acc' fct' prev' where m: "n \<le> m"
          "exp_iter x p m = Inr (acc', fct', prev', r)"
          "\<not> (int m + 1 < T \<and> prev' \<noteq> r)"
          by blast
        have "m \<noteq> n" using m(2,3) it st True i by auto
        then have "Suc n \<le> m" using m(1) by simp
        from exp_iter_fault_le [OF next_fault this] m(2) show False by simp
      qed
      with loop show ?thesis by simp
    next
      case (Inr st')
      then have loop: "exp_loop T x p i st = exp_loop T x p (i + 1) st'"
        using True by (subst exp_loop.simps) (simp add: st)
      have nx: "exp_iter x p (Suc n) = Inr st'"
        using it Inr i by simp
      have ih: "exp_loop T x p (i + 1) st' = Inr r \<longleftrightarrow> ?R (Suc n)"
        using "1.IH" [of acc "(fct, prev, res)" fct "(prev, res)" prev res st' "Suc n"]
          st True Inr nx i by simp
      have "?R n \<longleftrightarrow> ?R (Suc n)"
      proof
        assume "?R n"
        then obtain m acc' fct' prev' where m: "n \<le> m"
          "exp_iter x p m = Inr (acc', fct', prev', r)"
          "\<not> (int m + 1 < T \<and> prev' \<noteq> r)"
          "\<forall>j. n \<le> j \<and> j < m \<longrightarrow>
             (\<exists>a f q s. exp_iter x p j = Inr (a, f, q, s) \<and> int j + 1 < T \<and> q \<noteq> s)"
          by blast
        have "m \<noteq> n" using m(2,3) it st True i by auto
        then have "Suc n \<le> m" using m(1) by simp
        with m(2,3,4) show "?R (Suc n)"
          by (intro exI [of _ m] exI [of _ acc'] exI [of _ fct'] exI [of _ prev']) auto
      next
        assume "?R (Suc n)"
        then obtain m acc' fct' prev' where m: "Suc n \<le> m"
          "exp_iter x p m = Inr (acc', fct', prev', r)"
          "\<not> (int m + 1 < T \<and> prev' \<noteq> r)"
          "\<forall>j. Suc n \<le> j \<and> j < m \<longrightarrow>
             (\<exists>a f q s. exp_iter x p j = Inr (a, f, q, s) \<and> int j + 1 < T \<and> q \<noteq> s)"
          by blast
        have "\<exists>a f q s. exp_iter x p j = Inr (a, f, q, s) \<and> int j + 1 < T \<and> q \<noteq> s"
          if "n \<le> j \<and> j < m" for j
        proof (cases "j = n")
          case True
          then show ?thesis using it st \<open>?run\<close> i by simp
        next
          case False
          then show ?thesis using that m(4) by simp
        qed
        with m(1,2,3) show "?R n"
          by (intro exI [of _ m] exI [of _ acc'] exI [of _ fct'] exI [of _ prev']) auto
      qed
      with loop ih show ?thesis by simp
    qed
  qed
qed

lemma exp_loop_iter_fault:
  "i = int n + 1 \<Longrightarrow> exp_iter x p n = Inr st \<Longrightarrow>
   exp_loop T x p i st = Inl e \<longleftrightarrow>
     (\<exists>m. n < m \<and> exp_iter x p m = Inl e \<and>
        (\<forall>j. n \<le> j \<and> j < m \<longrightarrow>
           (\<exists>a f q s. exp_iter x p j = Inr (a, f, q, s) \<and> int j + 1 < T \<and> q \<noteq> s)))"
proof (induction T x p i st arbitrary: n rule: exp_loop.induct)
  case (1 T x p i st)
  obtain acc fct prev res where st: "st = (acc, fct, prev, res)"
    by (cases st) auto
  let ?run = "i < T \<and> prev \<noteq> res"
  let ?R = "\<lambda>n. \<exists>m. n < m \<and> exp_iter x p m = Inl e \<and>
        (\<forall>j. n \<le> j \<and> j < m \<longrightarrow>
           (\<exists>a f q s. exp_iter x p j = Inr (a, f, q, s) \<and> int j + 1 < T \<and> q \<noteq> s))"
  note i = \<open>i = int n + 1\<close>
  note it = \<open>exp_iter x p n = Inr st\<close>
  show ?case
  proof (cases ?run)
    case False
    then have loop: "exp_loop T x p i st = Inr res"
      by (subst exp_loop.simps) (auto simp: st)
    have "\<not> ?R n"
    proof
      assume "?R n"
      then obtain m where m: "n < m"
        "\<forall>j. n \<le> j \<and> j < m \<longrightarrow>
           (\<exists>a f q s. exp_iter x p j = Inr (a, f, q, s) \<and> int j + 1 < T \<and> q \<noteq> s)"
        by blast
      then obtain a f q s where "exp_iter x p n = Inr (a, f, q, s)" "int n + 1 < T" "q \<noteq> s"
        by blast
      with it st False i show False by simp
    qed
    with loop show ?thesis by simp
  next
    case True
    have run_n: "\<exists>a f q s. exp_iter x p n = Inr (a, f, q, s) \<and> int n + 1 < T \<and> q \<noteq> s"
      using it st True i by simp
    show ?thesis
    proof (cases "exp_body x p i st")
      case (Inl e')
      then have loop: "exp_loop T x p i st = Inl e'"
        using True by (subst exp_loop.simps) (simp add: st)
      have next_fault: "exp_iter x p (Suc n) = Inl e'"
        using it Inl i by simp
      have "?R n \<longleftrightarrow> e = e'"
      proof
        assume "?R n"
        then obtain m where m: "n < m" "exp_iter x p m = Inl e" by blast
        then have "Suc n \<le> m" by simp
        from exp_iter_fault_le [OF next_fault this] m(2) show "e = e'" by simp
      next
        assume "e = e'"
        then show "?R n"
          using next_fault run_n by (intro exI [of _ "Suc n"]) (auto simp: less_Suc_eq_le)
      qed
      with loop show ?thesis by auto
    next
      case (Inr st')
      then have loop: "exp_loop T x p i st = exp_loop T x p (i + 1) st'"
        using True by (subst exp_loop.simps) (simp add: st)
      have nx: "exp_iter x p (Suc n) = Inr st'"
        using it Inr i by simp
      have ih: "exp_loop T x p (i + 1) st' = Inl e \<longleftrightarrow> ?R (Suc n)"
        using "1.IH" [of acc "(fct, prev, res)" fct "(prev, res)" prev res st' "Suc n"]
          st True Inr nx i by simp
      have "?R n \<longleftrightarrow> ?R (Suc n)"
      proof
        assume "?R n"
        then obtain m where m: "n < m" "exp_iter x p m = Inl e"
          "\<forall>j. n \<le> j \<and> j < m \<longrightarrow>
             (\<exists>a f q s. exp_iter x p j = Inr (a, f, q, s) \<and> int j + 1 < T \<and> q \<noteq> s)"
          by blast
        have "m \<noteq> Suc n" using m(2) nx by auto
        then have "Suc n < m" using m(1) by simp
        with m(2,3) show "?R (Suc n)"
          by (intro exI [of _ m]) auto
      next
        assume "?R (Suc n)"
        then obtain m where m: "Suc n < m" "exp_iter x p m = Inl e"
          "\<forall>j. Suc n \<le> j \<and> j < m \<longrightarrow>
             (\<exists>a f q s. exp_iter x p j = Inr (a, f, q, s) \<and> int j + 1 < T \<and> q \<noteq> s)"
          by blast
        have "\<exists>a f q s. exp_iter x p j = Inr (a, f, q, s) \<and> int j + 1 < T \<and> q \<noteq> s"
          if "n \<le> j \<and> j < m" for j
        proof (cases "j = n")
          case True
          then show ?thesis using run_n by simp
        next
          case False
          then show ?thesis using that m(3) by simp
        qed
        with m(1,2) show "?R n"
          by (intro exI [of _ m]) auto
      qed
      with loop ih show ?thesis by simp
    qed
  qed
qed

lemma exp_iter_spec: "exp_iter x p n = power_series_spec x p n"
proof (induction n)
  case 0
  show ?case by simp
next
  case (Suc n)
  show ?case
  proof (cases "power_series_spec x p n")
    case (Inl e)
    then show ?thesis using Suc by simp
  next
    case (Inr st)
    obtain acc fct prev res where st: "st = (acc, fct, prev, res)"
      by (cases st) auto
    show ?thesis
      using Suc Inr by (simp add: st exp_body_def)
  qed
qed

lemma fp_exp_series:
  fixes x p :: int16
  assumes x: "0 \<le> sint x"
  shows "fp_exp T x p = Inr r \<longleftrightarrow>
     (\<exists>n acc fct prev. power_series_spec x p n = Inr (acc, fct, prev, r) \<and>
        \<not> (int n + 1 < T \<and> prev \<noteq> r) \<and>
        (\<forall>m<n. \<exists>a f q s. power_series_spec x p m = Inr (a, f, q, s) \<and>
                  int m + 1 < T \<and> q \<noteq> s))"
  unfolding exp_iter_spec [symmetric]
proof (cases "shl1 (sint p)")
  case (Inl e)
  then have "exp_iter x p 0 = Inl e" by simp
  then have "exp_iter x p n = Inl e" for n
    using exp_iter_fault_le [of x p 0 e n] by simp
  moreover have "fp_exp T x p = Inl e"
    using Inl by (simp add: fp_exp_def Let_def)
  ultimately show "fp_exp T x p = Inr r \<longleftrightarrow>
     (\<exists>n acc fct prev. exp_iter x p n = Inr (acc, fct, prev, r) \<and>
        \<not> (int n + 1 < T \<and> prev \<noteq> r) \<and>
        (\<forall>m<n. \<exists>a f q s. exp_iter x p m = Inr (a, f, q, s) \<and> int m + 1 < T \<and> q \<noteq> s))"
    by simp
next
  case (Inr scale)
  define one :: int16 where "one = word_of_int scale"
  have it: "exp_iter x p 0 = Inr (one, one, 0, one)"
    using Inr by (simp add: one_def Let_def)
  have "fp_exp T x p = seq (exp_loop T x p 1 (one, one, 0, one)) Inr"
    using Inr x by (simp add: fp_exp_def Let_def one_def)
  then have "fp_exp T x p = Inr r \<longleftrightarrow> exp_loop T x p 1 (one, one, 0, one) = Inr r"
    by (simp add: seq_def split: sum.splits)
  also have "\<dots> \<longleftrightarrow>
     (\<exists>m acc fct prev. 0 \<le> m \<and> exp_iter x p m = Inr (acc, fct, prev, r) \<and>
        \<not> (int m + 1 < T \<and> prev \<noteq> r) \<and>
        (\<forall>j. 0 \<le> j \<and> j < m \<longrightarrow>
           (\<exists>a f q s. exp_iter x p j = Inr (a, f, q, s) \<and> int j + 1 < T \<and> q \<noteq> s)))"
    by (rule exp_loop_iter [OF _ it]) simp
  finally show "fp_exp T x p = Inr r \<longleftrightarrow>
     (\<exists>n acc fct prev. exp_iter x p n = Inr (acc, fct, prev, r) \<and>
        \<not> (int n + 1 < T \<and> prev \<noteq> r) \<and>
        (\<forall>m<n. \<exists>a f q s. exp_iter x p m = Inr (a, f, q, s) \<and> int m + 1 < T \<and> q \<noteq> s))"
    by simp
qed

lemma fp_exp_series_fault:
  fixes x p :: int16
  assumes x: "0 \<le> sint x"
  shows "fp_exp T x p = Inl e \<longleftrightarrow>
     (\<exists>n. power_series_spec x p n = Inl e \<and>
        (\<forall>m<n. \<exists>a f q s. power_series_spec x p m = Inr (a, f, q, s) \<and>
                  int m + 1 < T \<and> q \<noteq> s))"
  unfolding exp_iter_spec [symmetric]
proof (cases "shl1 (sint p)")
  case (Inl e')
  then have z: "exp_iter x p 0 = Inl e'" by simp
  then have all: "exp_iter x p n = Inl e'" for n
    using exp_iter_fault_le [of x p 0 e' n] by simp
  have f: "fp_exp T x p = Inl e'"
    using Inl by (simp add: fp_exp_def Let_def)
  have "(\<exists>n. exp_iter x p n = Inl e \<and>
        (\<forall>m<n. \<exists>a f q s. exp_iter x p m = Inr (a, f, q, s) \<and> int m + 1 < T \<and> q \<noteq> s)) \<longleftrightarrow>
        e = e'"
  proof
    assume "\<exists>n. exp_iter x p n = Inl e \<and>
        (\<forall>m<n. \<exists>a f q s. exp_iter x p m = Inr (a, f, q, s) \<and> int m + 1 < T \<and> q \<noteq> s)"
    then show "e = e'" using all by auto
  next
    assume "e = e'"
    then show "\<exists>n. exp_iter x p n = Inl e \<and>
        (\<forall>m<n. \<exists>a f q s. exp_iter x p m = Inr (a, f, q, s) \<and> int m + 1 < T \<and> q \<noteq> s)"
      using z by (intro exI [of _ 0]) simp
  qed
  with f show "fp_exp T x p = Inl e \<longleftrightarrow>
     (\<exists>n. exp_iter x p n = Inl e \<and>
        (\<forall>m<n. \<exists>a f q s. exp_iter x p m = Inr (a, f, q, s) \<and> int m + 1 < T \<and> q \<noteq> s))"
    by auto
next
  case (Inr scale)
  define one :: int16 where "one = word_of_int scale"
  have it: "exp_iter x p 0 = Inr (one, one, 0, one)"
    using Inr by (simp add: one_def Let_def)
  have "fp_exp T x p = seq (exp_loop T x p 1 (one, one, 0, one)) Inr"
    using Inr x by (simp add: fp_exp_def Let_def one_def)
  then have "fp_exp T x p = Inl e \<longleftrightarrow> exp_loop T x p 1 (one, one, 0, one) = Inl e"
    by (simp add: seq_def split: sum.splits)
  also have "\<dots> \<longleftrightarrow>
     (\<exists>m. 0 < m \<and> exp_iter x p m = Inl e \<and>
        (\<forall>j. 0 \<le> j \<and> j < m \<longrightarrow>
           (\<exists>a f q s. exp_iter x p j = Inr (a, f, q, s) \<and> int j + 1 < T \<and> q \<noteq> s)))"
    by (rule exp_loop_iter_fault [OF _ it]) simp
  also have "\<dots> \<longleftrightarrow>
     (\<exists>n. exp_iter x p n = Inl e \<and>
        (\<forall>m<n. \<exists>a f q s. exp_iter x p m = Inr (a, f, q, s) \<and> int m + 1 < T \<and> q \<noteq> s))"
  proof -
    have "0 < n" if "exp_iter x p n = Inl e" for n
      using that it by (cases n) simp_all
    then show ?thesis by auto
  qed
  finally show "fp_exp T x p = Inl e \<longleftrightarrow>
     (\<exists>n. exp_iter x p n = Inl e \<and>
        (\<forall>m<n. \<exists>a f q s. exp_iter x p m = Inr (a, f, q, s) \<and> int m + 1 < T \<and> q \<noteq> s))" .
qed

lemma fp_exp_negative:
  fixes x p :: int16
  assumes x: "sint x < 0" "sint x \<noteq> - 32768"
  shows "fp_exp T x p =
           seq (fp_exp T (fp_neg x) p) (\<lambda>r.
           seq (int_to_fp 1 p) (\<lambda>unit. fp_div unit r p))"
    and "sint (fp_neg x) = \<bar>sint x\<bar>"
proof -
  have n: "sint (fp_neg x) = - sint x" using x(2) by (rule sint_neg16)
  then show "sint (fp_neg x) = \<bar>sint x\<bar>" using x(1) by simp
  have pos: "\<not> sint (fp_neg x) < 0" using n x(1) by simp
  show "fp_exp T x p =
           seq (fp_exp T (fp_neg x) p) (\<lambda>r.
           seq (int_to_fp 1 p) (\<lambda>unit. fp_div unit r p))"
    using x(1) pos
    by (simp add: fp_exp_def [of T x] fp_exp_def [of T "fp_neg x"] Let_def seq_def split: sum.splits)
qed

lemma fp_exp_zero:
  fixes p :: int16
  assumes p: "0 \<le> sint p" "sint p \<le> 14"
  shows "fp_exp T 0 p = Inr (word_of_int (2 ^ nat (sint p)))"
    and "sint (word_of_int (2 ^ nat (sint p)) :: int16) = 2 ^ nat (sint p)"
proof -
  define S :: int where "S = 2 ^ nat (sint p)"
  define one :: int16 where "one = word_of_int S"
  have p30: "sint p \<le> 30" "sint p \<le> 15" using p by simp_all
  have s: "shl1 (sint p) = Inr S"
    unfolding S_def using p(1) p30(1) by (rule shl1_ok)
  have one: "sint one = S"
    unfolding one_def S_def using p by (rule sint_pow2)
  then show "sint (word_of_int (2 ^ nat (sint p)) :: int16) = 2 ^ nat (sint p)"
    by (simp add: one_def S_def)
  have S0: "0 < S" by (simp add: S_def)
  have S1: "S \<le> 16384" unfolding S_def using p by (rule S14)
  have one0: "one \<noteq> 0" using one S0 by auto
  have m1: "fp_mul 0 one p = Inr 0"
    using fp_mul_ok [OF p(1) p30(1), of 0 one] by simp
  have f: "c_int S = Inr S"
    using S0 S1 by (simp add: c_int_def)
  have m2: "fp_mul one (word_of_int S) p = Inr one"
    unfolding S_def using p by (rule fp_mul_one)
  have d: "fp_div 0 one p = Inr 0"
    using one0 by (simp add: fp_div_cases [OF p(1) p30(2)])
  have body: "exp_body 0 p 1 (one, one, 0, one) = Inr (0, one, one, one)"
    by (simp add: exp_body_def m1 s f m2 d fp_add_def)
  have stop: "exp_loop T 0 p 2 (0, one, one, one) = Inr one"
    by (subst exp_loop.simps) simp
  have l: "exp_loop T 0 p 1 (one, one, 0, one) = Inr one"
  proof (cases "1 < T")
    case True
    then show ?thesis
      using one0 body stop by (subst exp_loop.simps) simp
  next
    case False
    then show ?thesis by (subst exp_loop.simps) simp
  qed
  have "fp_exp T 0 p = seq (exp_loop T 0 p 1 (one, one, 0, one)) Inr"
    unfolding fp_exp_def Let_def s seq_Inr one_def by simp
  then show "fp_exp T 0 p = Inr (word_of_int (2 ^ nat (sint p)))"
    unfolding l by (simp add: one_def S_def)
qed

subsection \<open>The store\<close>

lemma mat_at_set_data_same:
  "p < length h \<Longrightarrow> mat_at (set_data h p m v) p = Inr (m\<lparr>data := v\<rparr>)"
  by (simp add: mat_at_def set_data_def)

lemma mat_at_live: "mat_at h p = Inr m \<Longrightarrow> p < length h"
  by (simp add: mat_at_def split: if_splits)

lemma rnn_other_cell:
  assumes r: "mat_at h result = Inr R"
  shows "0 < sint seqLength \<Longrightarrow> inputs \<noteq> [] \<Longrightarrow>
           rnn h result inputs cell (OtherCell k) seqLength precision =
             Inr (set_data h result R (replicate (length (data R)) 0), None)"
    and "sint seqLength \<le> 0 \<Longrightarrow>
           rnn h result inputs cell cellType seqLength precision =
             Inr (set_data h result R (replicate (length (data R)) 0), Some result)"
proof -
  assume "0 < sint seqLength" "inputs \<noteq> []"
  then show "rnn h result inputs cell (OtherCell k) seqLength precision =
             Inr (set_data h result R (replicate (length (data R)) 0), None)"
    using r by (simp add: rnn_def matrix_set_def Let_def rnn_loop.simps)
next
  assume "sint seqLength \<le> 0"
  then show "rnn h result inputs cell cellType seqLength precision =
             Inr (set_data h result R (replicate (length (data R)) 0), Some result)"
    using r by (simp add: rnn_def matrix_set_def Let_def rnn_loop.simps)
qed

lemma seq_assoc: "seq (seq m f) g = seq m (\<lambda>x. seq (f x) g)"
  by (simp add: seq_def split: sum.splits)

lemma mat_at_set_data:
  "mat_at (set_data h q m v) p =
     (if p = q \<and> q < length h then Inr (m\<lparr>data := v\<rparr>) else mat_at h p)"
  by (auto simp: mat_at_def set_data_def)

lemma mat_at_snoc:
  "mat_at (h @ [x]) p =
     (if p = length h then (case x of Some m \<Rightarrow> Inr m | None \<Rightarrow> Inl NullDeref) else mat_at h p)"
  by (auto simp: mat_at_def nth_append)

lemma length_set_data [simp]: "length (set_data h q m v) = length h"
  by (simp add: set_data_def)

lemma set_data_twice:
  "set_data (set_data h q m v) q m' w = set_data h q m' w"
  by (simp add: set_data_def)

lemma set_data_snoc_old:
  "q < length h \<Longrightarrow> set_data (h @ xs) q m v = set_data h q m v @ xs"
  by (simp add: set_data_def list_update_append)

lemma set_data_snoc_new:
  "set_data (h @ [x]) (length h) m v = h @ [Some (m\<lparr>data := v\<rparr>)]"
  by (simp add: set_data_def)

lemma matrix_free_snoc:
  "length h = n \<Longrightarrow> matrix_free (h @ [x]) n = h @ [None]"
  by (auto simp: matrix_free_def)

lemma set_data_data [simp]: "set_data h q (m\<lparr>data := v\<rparr>) w = set_data h q m w"
  by (simp add: set_data_def)

lemma apply_gate_run:
  assumes g: "mat_at h gate = Inr G" and f: "mat_at h first = Inr F"
    and s: "mat_at h second = Inr S" and r: "mat_at h result = Inr R"
    and sh: "same_shape F G" "same_shape S G" "same_shape R G"
  shows "apply_gate h result gate first second p =
           seq (gate_spec p (data G) (data F) (data S)) (\<lambda>v.
             Inr (set_data h result R v @ [None], result))"
proof -
  note live = mat_at_live [OF g] mat_at_live [OF f] mat_at_live [OF s] mat_at_live [OF r]
  have ne: "gate \<noteq> length h" "first \<noteq> length h" "second \<noteq> length h" "result \<noteq> length h"
    using live by simp_all
  show ?thesis
    using sh live ne
    by (simp add: apply_gate_def matrix_allocate_def scalar_product_def scalar_add_def
        matrix_hadamard_def matrix_add_def gate_spec_def complement_spec_def
        mat_at_snoc mat_at_set_data g f s r same_shape_def seq_assoc
        set_data_twice set_data_snoc_old set_data_snoc_new matrix_free_snoc
        cong: sum.case_cong)
qed

lemma hadamard_v_Nil [simp]: "hadamard_v p [] ys = Inr []" "hadamard_v p xs [] = Inr []"
  by (simp_all add: hadamard_v_def)

lemma hadamard_v_Cons [simp]:
  "hadamard_v p (x # xs) (y # ys) =
     seq (fp_mul x y p) (\<lambda>z. seq (hadamard_v p xs ys) (\<lambda>zs. Inr (z # zs)))"
  by (simp add: hadamard_v_def)

lemma fp_mul_zero_right:
  assumes "0 \<le> sint p" "sint p \<le> 30"
  shows "fp_mul x 0 p = Inr 0"
  using fp_mul_ok [OF assms, of x 0] by simp

lemma fp_mul_zero_left:
  assumes "0 \<le> sint p" "sint p \<le> 30"
  shows "fp_mul 0 y p = Inr 0"
  using fp_mul_ok [OF assms, of 0 y] by simp

lemma hadamard_zero_right:
  assumes "0 \<le> sint p" "sint p \<le> 30"
  shows "hadamard_v p xs (replicate (length xs) 0) = Inr (replicate (length xs) 0)"
  by (induction xs) (simp_all add: fp_mul_zero_right [OF assms])

lemma hadamard_zero_left:
  assumes "0 \<le> sint p" "sint p \<le> 30"
  shows "hadamard_v p (replicate (length ys) 0) ys = Inr (replicate (length ys) 0)"
  by (induction ys) (simp_all add: fp_mul_zero_left [OF assms])

lemma hadamard_one_right:
  assumes "0 \<le> sint p" "sint p \<le> 14"
  shows "hadamard_v p xs (replicate (length xs) (word_of_int (2 ^ nat (sint p)))) = Inr xs"
  using fp_mul_one [OF assms] by (induction xs) simp_all

lemma add_v_zero_right: "add_v xs (replicate (length xs) 0) = xs"
  by (induction xs) (simp_all add: add_v_def fp_add_def)

lemma add_v_zero_left: "add_v (replicate (length ys) 0) ys = ys"
  by (induction ys) (simp_all add: add_v_def fp_add_def)

lemma int_to_fp_minus_one:
  assumes "0 \<le> sint p" "sint p \<le> 30"
  shows "int_to_fp (- 1) p = Inr (word_of_int (- (2 ^ nat (sint p))))"
proof -
  have "(2::int) ^ nat (sint p) \<le> 2 ^ nat 30"
    using assms by (intro pow2_nat_le) simp_all
  then have "\<bar>- ((2::int) ^ nat (sint p))\<bar> \<le> 2 ^ 30" by simp
  then show ?thesis
    using assms by (simp add: int_to_fp_def shl1_ok c_int_ok)
qed

lemma fp_mul_one_minus_one:
  assumes p: "0 \<le> sint p" "sint p \<le> 14"
  shows "fp_mul (word_of_int (2 ^ nat (sint p))) (word_of_int (- (2 ^ nat (sint p)))) p =
           Inr (word_of_int (- (2 ^ nat (sint p))))"
    and "fp_add (word_of_int (- (2 ^ nat (sint p)))) (word_of_int (2 ^ nat (sint p))) = 0"
proof -
  define S :: int where "S = 2 ^ nat (sint p)"
  define one :: int16 where "one = word_of_int S"
  define m :: int16 where "m = word_of_int (- S)"
  have S0: "0 < S" by (simp add: S_def)
  have S1: "S \<le> 16384" unfolding S_def using p by (rule S14)
  have one: "sint one = S"
    unfolding S_def one_def using p by (rule sint_pow2)
  have m: "sint m = - S"
    unfolding m_def using S0 S1 by (intro sint_narrow) linarith+
  have p30: "sint p \<le> 30" using p by simp
  have q: "(S * - S) sdiv S = - S"
    using sdiv_mult_self [of S "- S"] S0 by (simp add: mult.commute)
  have "fp_mul one m p = Inr (word_of_int ((sint one * sint m) sdiv 2 ^ nat (sint p)))"
    using p(1) p30 by (rule fp_mul_ok)
  then have "fp_mul one m p = Inr (word_of_int (- S))"
    unfolding one m S_def [symmetric] q .
  then show "fp_mul (word_of_int (2 ^ nat (sint p))) (word_of_int (- (2 ^ nat (sint p)))) p =
           Inr (word_of_int (- (2 ^ nat (sint p))))"
    unfolding one_def m_def S_def .
  have "fp_add m one = word_of_int (- S + S)"
    unfolding fp_add_def m one ..
  then have "fp_add m one = 0" by simp
  then show "fp_add (word_of_int (- (2 ^ nat (sint p)))) (word_of_int (2 ^ nat (sint p))) = 0"
    unfolding one_def m_def S_def .
qed

lemma map_res_replicate:
  "f x = Inr y \<Longrightarrow> map_res f (replicate n x) = Inr (replicate n y)"
  by (induction n) simp_all

lemma complement_spec_ones:
  assumes p: "0 \<le> sint p" "sint p \<le> 14"
  shows "complement_spec p (replicate n (word_of_int (2 ^ nat (sint p)))) = Inr (replicate n 0)"
proof -
  have p30: "sint p \<le> 30" using p by simp
  note m1 = int_to_fp_minus_one [OF p(1) p30]
  note o1 = int_to_fp_one [OF p(1) p30]
  note mo = fp_mul_one_minus_one [OF p]
  have "scalar_product_v p (word_of_int (- (2 ^ nat (sint p))))
          (replicate n (word_of_int (2 ^ nat (sint p)))) =
        Inr (replicate n (word_of_int (- (2 ^ nat (sint p)))))"
    unfolding scalar_product_v_def using mo(1) by (rule map_res_replicate)
  then show ?thesis
    unfolding complement_spec_def m1 o1 seq_Inr scalar_add_v_def
    by (simp only: seq_Inr map_replicate mo(2))
qed

lemma complement_spec_zeros:
  assumes p: "0 \<le> sint p" "sint p \<le> 14"
  shows "complement_spec p (replicate n 0) = Inr (replicate n (word_of_int (2 ^ nat (sint p))))"
proof -
  have p30: "sint p \<le> 30" using p by simp
  note m1 = int_to_fp_minus_one [OF p(1) p30]
  note o1 = int_to_fp_one [OF p(1) p30]
  have "scalar_product_v p (word_of_int (- (2 ^ nat (sint p)))) (replicate n 0) =
        Inr (replicate n 0)"
    unfolding scalar_product_v_def using fp_mul_zero_left [OF p(1) p30]
    by (rule map_res_replicate)
  moreover have "fp_add 0 (word_of_int (2 ^ nat (sint p)) :: int16) = word_of_int (2 ^ nat (sint p))"
    by (simp add: fp_add_def)
  ultimately show ?thesis
    unfolding complement_spec_def m1 o1 seq_Inr scalar_add_v_def
    by (simp only: seq_Inr map_replicate)
qed

lemma gate_spec_ones:
  assumes p: "0 \<le> sint p" "sint p \<le> 14"
    and len: "length first = length g" "length second = length g"
    and g: "\<forall>x\<in>set g. x = word_of_int (2 ^ nat (sint p))"
  shows "gate_spec p g first second = Inr first"
proof -
  have p30: "sint p \<le> 30" using p by simp
  have g': "g = replicate (length g) (word_of_int (2 ^ nat (sint p)))"
    using g by (simp add: replicate_length_same)
  have c: "complement_spec p g = Inr (replicate (length second) 0)"
    using complement_spec_ones [OF p, of "length g"] g' len by simp
  have sc: "hadamard_v p second (replicate (length second) 0) = Inr (replicate (length first) 0)"
    using hadamard_zero_right [OF p(1) p30, of second] len by simp
  have fg: "hadamard_v p first g = Inr first"
    using hadamard_one_right [OF p, of first] g' len by simp
  show ?thesis
    unfolding gate_spec_def c seq_Inr sc fg add_v_zero_right ..
qed

lemma gate_spec_zeros:
  assumes p: "0 \<le> sint p" "sint p \<le> 14"
    and len: "length first = length g" "length second = length g"
    and g: "\<forall>x\<in>set g. x = 0"
  shows "gate_spec p g first second = Inr second"
proof -
  have p30: "sint p \<le> 30" using p by simp
  have g': "g = replicate (length g) 0"
    using g by (simp add: replicate_length_same)
  have c: "complement_spec p g =
             Inr (replicate (length second) (word_of_int (2 ^ nat (sint p))))"
    using complement_spec_zeros [OF p, of "length g"] g' len by simp
  have sc: "hadamard_v p second (replicate (length second) (word_of_int (2 ^ nat (sint p)))) =
              Inr second"
    using p by (rule hadamard_one_right)
  have fg: "hadamard_v p first g = Inr (replicate (length second) 0)"
    using hadamard_zero_right [OF p(1) p30, of first] g' len by simp
  show ?thesis
    unfolding gate_spec_def c seq_Inr sc fg add_v_zero_left ..
qed

subsection \<open>The fused cell on the store\<close>

lemma map_res_length: "map_res f xs = Inr ys \<Longrightarrow> length ys = length xs"
proof (induction xs arbitrary: ys)
  case Nil
  then show ?case by simp
next
  case (Cons x xs)
  then show ?case
    by (auto simp: seq_def split: sum.splits)
qed

lemma multiply_v_length:
  "multiply_v p a b = Inr v \<Longrightarrow> length v = numRows a * numCols b"
  by (auto simp: multiply_v_def length_concat comp_def sum_list_triv dest!: map_res_length)

lemma hadamard_v_length:
  "hadamard_v p xs ys = Inr v \<Longrightarrow> length v = min (length xs) (length ys)"
  by (auto simp: hadamard_v_def dest!: map_res_length)

lemma length_add_v [simp]: "length (add_v xs ys) = min (length xs) (length ys)"
  by (simp add: add_v_def)

lemma set_data_id: "mat_at h p = Inr m \<Longrightarrow> set_data h p m (data m) = h"
  by (auto simp: mat_at_def set_data_def list_update_same_conv split: if_splits option.splits)

lemma sint_of_nat16: "n \<le> 32767 \<Longrightarrow> sint (of_nat n :: int16) = int n"
  using sint_narrow [of "int n"] by simp

lemma split_copy_eval:
  assumes "mat_at h src = Inr S" "mat_at h dst = Inr D" "dst \<noteq> src"
    and "offset \<le> index" "index \<le> bound" "bound \<le> 32767"
  shows "split_copy h dst src (of_nat offset) bound (of_nat index) =
           (if index < bound \<longrightarrow> bound \<le> length (data S) \<and> bound - offset \<le> length (data D)
            then Inr (set_data h dst D
                        (take (index - offset) (data D) @
                         take (bound - index) (drop index (data S)) @
                         drop (bound - offset) (data D)), of_nat bound)
            else Inl OutOfBounds)"
  using assms
proof (induction "bound - index" arbitrary: h D index)
  case 0
  then have "index = bound" by simp
  then show ?case
    using 0 by (subst split_copy.simps) (simp add: set_data_id sint_of_nat16)
next
  case (Suc k)
  then have lt: "index < bound" by simp
  have si: "sint (of_nat index :: int16) = int index"
    using Suc.prems(5,6) by (intro sint_of_nat16) simp
  have so: "sint (of_nat offset :: int16) = int offset"
    using Suc.prems(4,5,6) by (intro sint_of_nat16) simp
  have sub: "nat (int index - int offset) = index - offset"
    using Suc.prems(4) by simp
  have nx: "(of_nat index + 1 :: int16) = of_nat (Suc index)"
    by simp
  show ?case
  proof (cases "index < length (data S) \<and> index - offset < length (data D)")
    case False
    then show ?thesis
      using Suc.prems lt by (subst split_copy.simps) (auto simp: si so sub)
  next
    case True
    define D' where "D' = D\<lparr>data := (data D)[index - offset := data S ! index]\<rparr>"
    define h' where "h' = set_data h dst D ((data D)[index - offset := data S ! index])"
    have live: "dst < length h" using Suc.prems(2) by (rule mat_at_live)
    have s': "mat_at h' src = Inr S"
      using Suc.prems(1,3) by (simp add: h'_def mat_at_set_data)
    have d': "mat_at h' dst = Inr D'"
      using live by (simp add: h'_def D'_def mat_at_set_data)
    have k: "k = bound - Suc index" using Suc.hyps(2) by simp
    have step: "split_copy h dst src (of_nat offset) bound (of_nat index) =
                split_copy h' dst src (of_nat offset) bound (of_nat index + 1)"
      using Suc.prems(1,2,4) lt True
      by (subst split_copy.simps) (simp add: h'_def si so sub)
    have ih: "split_copy h' dst src (of_nat offset) bound (of_nat (Suc index)) =
           (if Suc index < bound \<longrightarrow> bound \<le> length (data S) \<and> bound - offset \<le> length (data D')
            then Inr (set_data h' dst D'
                        (take (Suc index - offset) (data D') @
                         take (bound - Suc index) (drop (Suc index) (data S)) @
                         drop (bound - offset) (data D')), of_nat bound)
            else Inl OutOfBounds)"
      using Suc.hyps(1) [OF k s' d' Suc.prems(3) _ _ Suc.prems(6)] Suc.prems(4) lt by simp
    have len: "length (data D') = length (data D)" by (simp add: D'_def)
    have sd: "set_data h' dst D' v = set_data h dst D v" for v
      by (simp add: h'_def D'_def set_data_def)
    have lists: "take (Suc index - offset) (data D') @
                 take (bound - Suc index) (drop (Suc index) (data S)) @
                 drop (bound - offset) (data D') =
                 take (index - offset) (data D) @
                 take (bound - index) (drop index (data S)) @
                 drop (bound - offset) (data D)"
    proof -
      have a: "Suc index - offset = Suc (index - offset)"
        using Suc.prems(4) by simp
      have t: "take (Suc (index - offset)) (data D') =
               take (index - offset) (data D) @ [data S ! index]"
        using True by (simp add: D'_def take_Suc_conv_app_nth)
      have b: "bound - index = Suc (bound - Suc index)" using lt by simp
      have m: "take (Suc (bound - Suc index)) (drop index (data S)) =
               data S ! index # take (bound - Suc index) (drop (Suc index) (data S))"
        using True by (simp add: Cons_nth_drop_Suc [symmetric])
      have d: "drop (bound - offset) (data D') = drop (bound - offset) (data D)"
        using lt Suc.prems(4) by (simp add: D'_def)
      show ?thesis
        unfolding a t b m d by simp
    qed
    have cond: "(Suc index < bound \<longrightarrow> bound \<le> length (data S) \<and> bound - offset \<le> length (data D)) \<longleftrightarrow>
                (index < bound \<longrightarrow> bound \<le> length (data S) \<and> bound - offset \<le> length (data D))"
      using True lt Suc.prems(4) by auto
    show ?thesis
      unfolding step nx ih len sd lists cond ..
  qed
qed

lemma mat_at_Nil [simp]: "mat_at [] p = Inl NullDeref"
  by (simp add: mat_at_def)

lemma mat_at_Cons:
  "mat_at (x # xs) p =
     (case p of 0 \<Rightarrow> (case x of Some m \<Rightarrow> Inr m | None \<Rightarrow> Inl NullDeref) | Suc q \<Rightarrow> mat_at xs q)"
  by (auto simp: mat_at_def split: nat.splits)

lemma mat_at_append:
  "mat_at (h @ xs) p = (if p < length h then mat_at h p else mat_at xs (p - length h))"
  by (auto simp: mat_at_def nth_append)

lemma set_data_Cons:
  "set_data (x # xs) p m v =
     (case p of 0 \<Rightarrow> Some (m\<lparr>data := v\<rparr>) # xs | Suc q \<Rightarrow> x # set_data xs q m v)"
  by (auto simp: set_data_def split: nat.splits)

lemma set_data_append:
  "set_data (h @ xs) p m v =
     (if p < length h then set_data h p m v @ xs else h @ set_data xs (p - length h) m v)"
  by (auto simp: set_data_def list_update_append)

lemma matrix_free_Cons:
  "matrix_free (x # xs) p = (case p of 0 \<Rightarrow> None # xs | Suc q \<Rightarrow> x # matrix_free xs q)"
  by (auto simp: matrix_free_def split: nat.splits)

lemma matrix_free_append:
  "matrix_free (h @ xs) p =
     (if p < length h then matrix_free h p @ xs else h @ matrix_free xs (p - length h))"
  by (auto simp: matrix_free_def list_update_append)

lemma matrix_free_Nil [simp]: "matrix_free [] p = []"
  by (simp add: matrix_free_def)

lemma split_copy_simp:
  assumes "mat_at h src = Inr (projr (mat_at h src))" "mat_at h dst = Inr (projr (mat_at h dst))"
    and "dst \<noteq> src" "offset \<le> index" "index \<le> bound" "bound \<le> 32767"
  shows "split_copy h dst src (of_nat offset) bound (of_nat index) =
           (if index < bound \<longrightarrow> bound \<le> length (data (projr (mat_at h src))) \<and>
               bound - offset \<le> length (data (projr (mat_at h dst)))
            then Inr (set_data h dst (projr (mat_at h dst))
                        (take (index - offset) (data (projr (mat_at h dst))) @
                         take (bound - index) (drop index (data (projr (mat_at h src)))) @
                         drop (bound - offset) (data (projr (mat_at h dst)))), of_nat bound)
            else Inl OutOfBounds)"
  using assms by (rule split_copy_eval)

lemma split_copy_simp0:
  assumes "mat_at h src = Inr (projr (mat_at h src))" "mat_at h dst = Inr (projr (mat_at h dst))"
    and "dst \<noteq> src" "bound \<le> 32767"
  shows "split_copy h dst src 0 bound 0 =
           (if 0 < bound \<longrightarrow> bound \<le> length (data (projr (mat_at h src))) \<and>
               bound \<le> length (data (projr (mat_at h dst)))
            then Inr (set_data h dst (projr (mat_at h dst))
                        (take bound (data (projr (mat_at h src))) @
                         drop bound (data (projr (mat_at h dst)))), of_nat bound)
            else Inl OutOfBounds)"
  using split_copy_eval [of h src "projr (mat_at h src)" dst "projr (mat_at h dst)" 0 0 bound] assms
  by simp

lemmas store_simps =
  mat_at_Cons mat_at_append set_data_Cons set_data_append matrix_free_Cons matrix_free_append
  mat_at_set_data set_data_twice

lemma apply_gate_simp:
  assumes "mat_at h gate = Inr (projr (mat_at h gate))"
    and "mat_at h first = Inr (projr (mat_at h first))"
    and "mat_at h second = Inr (projr (mat_at h second))"
    and "mat_at h result = Inr (projr (mat_at h result))"
    and "same_shape (projr (mat_at h first)) (projr (mat_at h gate))"
    and "same_shape (projr (mat_at h second)) (projr (mat_at h gate))"
    and "same_shape (projr (mat_at h result)) (projr (mat_at h gate))"
  shows "apply_gate h result gate first second p =
           seq (gate_spec p (data (projr (mat_at h gate))) (data (projr (mat_at h first)))
                  (data (projr (mat_at h second)))) (\<lambda>v.
             Inr (set_data h result (projr (mat_at h result)) v @ [None], result))"
  using assms by (rule apply_gate_run)

lemmas tf_gru_defs =
  apply_tf_gru_def matrix_allocate_def stack_def matrix_multiply_def
  matrix_add_def apply_elementwise_def matrix_hadamard_def
  tf_gru_spec_def column_def same_shape_def Let_def

lemma apply_tf_gru_run:
  assumes i: "mat_at h input = Inr I" and s: "mat_at h state = Inr S"
    and r: "mat_at h result = Inr R"
    and wg: "mat_at h (wGates gru) = Inr WG" and bg: "mat_at h (bGates gru) = Inr BG"
    and wc: "mat_at h (wCandidates gru) = Inr WC" and bc: "mat_at h (bCandidates gru) = Inr BC"
    and cols: "numCols I = 1" "numCols S = 1" "numCols R = 1" "numCols BG = 1" "numCols BC = 1"
    and rows: "numRows R = numRows S" "numRows WG = 2 * numRows S"
      "numCols WG = numRows I + numRows S" "numRows BG = 2 * numRows S"
      "numRows WC = numRows S" "numCols WC = numRows I + numRows S" "numRows BC = numRows S"
    and wf: "length (data I) = numRows I" "length (data S) = numRows S"
      "length (data BG) = 2 * numRows S" "length (data BC) = numRows S"
    and small: "2 * numRows S \<le> 32767"
  shows "apply_tf_gru h result input state gru p =
           seq (tf_gru_spec p WG (data BG) WC (data BC) (data I) (data S)) (\<lambda>v.
             Inr (set_data h result R v @ [None, None, None, None, None, None], result))"
proof -
  note live = mat_at_live [OF i] mat_at_live [OF s] mat_at_live [OF r] mat_at_live [OF wg]
    mat_at_live [OF bg] mat_at_live [OF wc] mat_at_live [OF bc]
  note facts = live cols rows wf small
  note rules = tf_gru_defs store_simps i s r wg bg wc bc split_copy_simp split_copy_simp0
    apply_gate_simp
  define hd where "hd = numRows S"
  show ?thesis
  proof (cases "multiply_v p WG (column (data I @ data S))")
    case (Inl e)
    then show ?thesis
      using facts by (simp add: rules)
  next
    case m1: (Inr a)
    have la: "length a = 2 * numRows S"
      using multiply_v_length [OF m1] rows by (simp add: column_def)
    show ?thesis
    proof (cases "map_res (\<lambda>v. fp_sigmoid v p) (add_v a (data BG))")
      case (Inl e)
      then show ?thesis
        using facts m1 la by (simp add: rules)
    next
      case m2: (Inr g)
      have lg: "length g = 2 * numRows S"
        using map_res_length [OF m2] la wf by simp
      show ?thesis
      proof (cases "hadamard_v p (data S) (take (numRows S) g)")
        case (Inl e)
        then show ?thesis
          using facts m1 la m2 lg by (simp add: rules)
      next
        case m3: (Inr ra)
        have lra: "length ra = numRows S"
          using hadamard_v_length [OF m3] lg wf by simp
        show ?thesis
        proof (cases "multiply_v p WC (column (data I @ ra))")
          case (Inl e)
          then show ?thesis
            using facts m1 la m2 lg m3 lra by (simp add: rules)
        next
          case m4: (Inr b)
          have lb: "length b = numRows S"
            using multiply_v_length [OF m4] rows by (simp add: column_def)
          show ?thesis
          proof (cases "map_res (\<lambda>v. fp_tanh v p) (add_v b (data BC))")
            case (Inl e)
            then show ?thesis
              using facts m1 la m2 lg m3 lra m4 lb by (simp add: rules)
          next
            case m5: (Inr c)
            have lc: "length c = numRows S"
              using map_res_length [OF m5] lb wf by simp
            show ?thesis
              using facts m1 la m2 lg m3 lra m4 lb m5 lc
              by (simp add: rules seq_assoc)
          qed
        qed
      qed
    qed
  qed
qed

section \<open>Multiplication and division\<close>

text \<open>
  Claim C6, as the code has it. For a precision from 0 to 30 \<^verbatim>\<open>fp_mul\<close> always returns,
  and its value is the quotient \<open>(x * y) / 2^precision\<close>, rounded towards zero and then
  reduced to 16 bits by the cast to \<^verbatim>\<open>int16_t\<close>: it is the quotient itself whenever
  that fits into 16 bits. For a precision from 0 to 15 \<^verbatim>\<open>fp_div\<close> fails exactly when
  \<open>y = 0\<close>, and otherwise returns \<open>(x * 2^precision) / y\<close>, rounded towards zero and
  reduced to 16 bits in the same way. For a precision from 0 to 14, where \<open>2^precision\<close>
  is a 16-bit value, multiplying by it is the identity.
\<close>

theorem fp_mul_fp_div_truncate:
  fixes x y p :: int16
  assumes "0 \<le> sint p"
  shows "(sint p \<le> 30 \<longrightarrow>
            fp_mul x y p = Inr (word_of_int ((sint x * sint y) sdiv 2 ^ nat (sint p))) \<and>
            (- 32768 \<le> (sint x * sint y) sdiv 2 ^ nat (sint p) \<and>
             (sint x * sint y) sdiv 2 ^ nat (sint p) \<le> 32767 \<longrightarrow>
               (\<exists>r. fp_mul x y p = Inr r \<and> sint r = (sint x * sint y) sdiv 2 ^ nat (sint p)))) \<and>
         (sint p \<le> 15 \<longrightarrow>
            ((\<exists>e. fp_div x y p = Inl e) \<longleftrightarrow> y = 0) \<and>
            (y \<noteq> 0 \<longrightarrow>
               fp_div x y p = Inr (word_of_int ((sint x * 2 ^ nat (sint p)) sdiv sint y)) \<and>
               (- 32768 \<le> (sint x * 2 ^ nat (sint p)) sdiv sint y \<and>
                (sint x * 2 ^ nat (sint p)) sdiv sint y \<le> 32767 \<longrightarrow>
                  (\<exists>r. fp_div x y p = Inr r \<and> sint r = (sint x * 2 ^ nat (sint p)) sdiv sint y)))) \<and>
         (sint p \<le> 14 \<longrightarrow> fp_mul x (word_of_int (2 ^ nat (sint p))) p = Inr x)"
proof (intro conjI impI)
  assume "sint p \<le> 30"
  with assms show "fp_mul x y p = Inr (word_of_int ((sint x * sint y) sdiv 2 ^ nat (sint p)))"
    by (rule fp_mul_ok)
next
  assume "sint p \<le> 30"
    and "- 32768 \<le> (sint x * sint y) sdiv 2 ^ nat (sint p) \<and>
         (sint x * sint y) sdiv 2 ^ nat (sint p) \<le> 32767"
  with assms show "\<exists>r. fp_mul x y p = Inr r \<and> sint r = (sint x * sint y) sdiv 2 ^ nat (sint p)"
    by (simp add: fp_mul_ok sint_narrow)
next
  assume "sint p \<le> 15"
  with assms show "(\<exists>e. fp_div x y p = Inl e) \<longleftrightarrow> y = 0"
    by (auto simp: fp_div_cases)
next
  assume "sint p \<le> 15" "y \<noteq> 0"
  with assms show "fp_div x y p = Inr (word_of_int ((sint x * 2 ^ nat (sint p)) sdiv sint y))"
    by (simp add: fp_div_cases)
next
  assume "sint p \<le> 15" "y \<noteq> 0"
    and "- 32768 \<le> (sint x * 2 ^ nat (sint p)) sdiv sint y \<and>
         (sint x * 2 ^ nat (sint p)) sdiv sint y \<le> 32767"
  with assms show "\<exists>r. fp_div x y p = Inr r \<and> sint r = (sint x * 2 ^ nat (sint p)) sdiv sint y"
    by (simp add: fp_div_cases sint_narrow)
next
  assume "sint p \<le> 14"
  with assms show "fp_mul x (word_of_int (2 ^ nat (sint p))) p = Inr x"
    by (rule fp_mul_one)
qed

text \<open>The theorem at \<open>x = 96\<close> (3.0), \<open>y = 80\<close> (2.5) and precision 5.\<close>

theorem fp_mul_fp_div_truncate_witness:
  "0 \<le> sint (5 :: int16) \<and> sint (5 :: int16) \<le> 14 \<and> (80 :: int16) \<noteq> 0 \<and>
   fp_mul 96 80 5 = Inr 240 \<and> fp_div 96 80 5 = Inr 38 \<and> fp_mul 96 32 5 = Inr 96"
  using fp_mul_fp_div_truncate [of 5 96 80]
  by (simp add: signed_divide_int_def)

text \<open>
  The claim as stated fails: 200.0 times 200.0 at precision 5 does not fit, and the cast
  wraps the quotient 1280000 to -30720; a precision of 31 makes \<^verbatim>\<open>1 << precision\<close>
  undefined although \<open>y\<close> is not zero; and at precision 15 the value \<open>2^15\<close> is the
  16-bit value -32768, so that multiplying by it negates.
\<close>

theorem fp_mul_fp_div_truncate_counterexample:
  "fp_mul 6400 6400 5 = Inr (- 30720) \<and> (6400 * 6400) sdiv 2 ^ 5 = (1280000 :: int) \<and>
   fp_div 1 1 31 = Inl ShiftTooWide \<and>
   fp_mul 3 (word_of_int (2 ^ 15)) 15 = Inr (- 3)"
  by (simp add: fp_mul_def fp_div_def seq_def shl1_def c_int_def c_div_def signed_divide_int_def)

text \<open>
  Claim C8, as the code has it. For a precision from 0 to 30, \<open>y \<noteq> 0\<close> and a product
  \<open>(x * y) / 2^precision\<close> that fits into 16 bits, dividing the product by \<open>y\<close> again
  returns a value \<open>d\<close> with \<open>|d - x| * |y| < |y| + 2^precision\<close>. The error is at most
  one unit when \<open>|y| \<ge> 2^precision\<close> (a divisor of magnitude at least 1.0); for a
  smaller divisor the truncation of the product is magnified by the division.
\<close>

theorem fp_div_fp_mul_roundtrip:
  fixes x y p :: int16
  assumes p: "0 \<le> sint p" "sint p \<le> 30" and y: "y \<noteq> 0"
    and fits: "- 32768 \<le> (sint x * sint y) sdiv 2 ^ nat (sint p)"
              "(sint x * sint y) sdiv 2 ^ nat (sint p) \<le> 32767"
  shows "\<exists>m d. fp_mul x y p = Inr m \<and> fp_div m y p = Inr d \<and>
           \<bar>sint d - sint x\<bar> * \<bar>sint y\<bar> < \<bar>sint y\<bar> + 2 ^ nat (sint p) \<and>
           (2 ^ nat (sint p) \<le> \<bar>sint y\<bar> \<longrightarrow> \<bar>sint d - sint x\<bar> \<le> 1)"
proof -
  define s :: int where "s = 2 ^ nat (sint p)"
  define q where "q = (sint x * sint y) sdiv s"
  define d where "d = (q * s) sdiv sint y"
  have s: "0 < s" by (simp add: s_def)
  have Y: "sint y \<noteq> 0" using y by simp
  note rt = mul_div_roundtrip_int [OF Y s, of "sint x", folded q_def d_def]
  have m: "fp_mul x y p = Inr (word_of_int q)"
    using p by (simp add: fp_mul_ok q_def s_def)
  have sm: "sint (word_of_int q :: int16) = q"
    using fits by (intro sint_narrow) (simp_all add: q_def s_def)
  have qs: "\<bar>q * s\<bar> \<le> 2 ^ 30"
    using rt(1) prod16_abs [of x y] by linarith
  have dx: "\<bar>d\<bar> \<le> 32768"
    using rt(2) sint16_abs [of x] by linarith
  have drange: "- 32768 \<le> d \<and> d \<le> 32767"
  proof (cases "sint x < 0")
    case True
    then have "d \<le> 0" by (rule rt(4))
    with dx show ?thesis by linarith
  next
    case False
    then have "0 \<le> d" by (intro rt(5)) simp
    moreover have "\<bar>d\<bar> \<le> 32767"
      using rt(2) sint16_bounds(2) [of x] False by linarith
    ultimately show ?thesis by linarith
  qed
  have dv: "fp_div (word_of_int q) y p = Inr (word_of_int d)"
    using p qs Y by (simp add: fp_div_def shl1_ok sm c_int_ok c_div_ok s_def [symmetric] d_def)
  have sd: "sint (word_of_int d :: int16) = d"
    using drange by (intro sint_narrow) simp_all
  have b1: "\<bar>d - sint x\<bar> * \<bar>sint y\<bar> < \<bar>sint y\<bar> + s"
    by (rule rt(3))
  have b2: "\<bar>d - sint x\<bar> \<le> 1" if "s \<le> \<bar>sint y\<bar>"
  proof -
    have "\<bar>d - sint x\<bar> * \<bar>sint y\<bar> < 2 * \<bar>sint y\<bar>"
      using b1 that by linarith
    then have "\<bar>d - sint x\<bar> < 2"
      using Y by (simp add: mult_less_cancel_right)
    then show ?thesis by linarith
  qed
  show ?thesis
    using m dv b1 b2 by (simp add: sd s_def)
qed

text \<open>The theorem at \<open>x = 100\<close>, \<open>y = 24\<close> (3.0) and precision 3.\<close>

theorem fp_div_fp_mul_roundtrip_witness:
  "0 \<le> sint (3 :: int16) \<and> sint (3 :: int16) \<le> 30 \<and> (24 :: int16) \<noteq> 0 \<and>
   - 32768 \<le> (sint (100 :: int16) * sint (24 :: int16)) sdiv 2 ^ nat (sint (3 :: int16)) \<and>
   (sint (100 :: int16) * sint (24 :: int16)) sdiv 2 ^ nat (sint (3 :: int16)) \<le> 32767 \<and>
   (\<exists>m d. fp_mul 100 24 3 = Inr m \<and> fp_div m 24 3 = Inr d \<and> \<bar>sint d - sint (100 :: int16)\<bar> \<le> 1)"
  using fp_div_fp_mul_roundtrip [of 3 24 100]
  by (auto simp: signed_divide_int_def)

text \<open>
  The claim as stated fails for a small divisor: at precision 3, \<open>100 * 1 / 8\<close> is
  truncated to 12, and \<open>12 * 8 / 1 = 96\<close> is four units away from 100.
\<close>

theorem fp_div_fp_mul_roundtrip_counterexample:
  "fp_mul 100 1 3 = Inr 12 \<and> fp_div 12 1 3 = Inr 96"
  by (simp add: fp_mul_def fp_div_def seq_def shl1_def c_int_def c_div_def signed_divide_int_def)

section \<open>The precision that the shifts of the approximations need\<close>

text \<open>
  Claim C10, as the code has it. \<^verbatim>\<open>fp_tanh\<close> shifts by \<open>precision - 3\<close>,
  \<open>precision - 1\<close> and \<open>precision\<close>, \<^verbatim>\<open>fp_sigmoid\<close> by \<open>precision\<close> and
  \<open>precision - 1\<close>. For a precision below 3 both run into a shift by a negative amount,
  whatever \<open>x\<close> is. For a precision from 3 to 30 no shift of either function is
  undefined. For a precision above 30 both shift a 1 out of the 32 bits of \<^verbatim>\<open>int\<close>: the
  precondition has an upper end as well.
\<close>

theorem fp_tanh_fp_sigmoid_shift_amounts:
  fixes x p :: int16
  shows "(sint p < 3 \<longrightarrow>
            fp_tanh x p = Inl ShiftNegative \<and> fp_sigmoid x p = Inl ShiftNegative) \<and>
         (3 \<le> sint p \<and> sint p \<le> 30 \<longrightarrow>
            fp_tanh x p \<noteq> Inl ShiftNegative \<and> fp_tanh x p \<noteq> Inl ShiftTooWide \<and>
            fp_sigmoid x p \<noteq> Inl ShiftNegative \<and> fp_sigmoid x p \<noteq> Inl ShiftTooWide) \<and>
         (30 < sint p \<longrightarrow>
            fp_tanh x p = Inl ShiftTooWide \<and> fp_sigmoid x p = Inl ShiftTooWide)"
  using fp_tanh_negative_shift [of p x] fp_sigmoid_negative_shift [of p x]
    fp_tanh_no_shift_fault [of p x] fp_sigmoid_no_shift_fault [of p x]
    fp_tanh_wide_shift [of p x] fp_sigmoid_wide_shift [of p x]
  by blast

text \<open>The theorem at the precisions 2, 5 and 31.\<close>

theorem fp_tanh_fp_sigmoid_shift_amounts_witness:
  "sint (2 :: int16) < 3 \<and> fp_tanh 32 2 = Inl ShiftNegative \<and> fp_sigmoid 32 2 = Inl ShiftNegative \<and>
   3 \<le> sint (5 :: int16) \<and> sint (5 :: int16) \<le> 30 \<and>
   fp_tanh 32 5 \<noteq> Inl ShiftNegative \<and> fp_tanh 32 5 \<noteq> Inl ShiftTooWide \<and>
   fp_sigmoid 32 5 \<noteq> Inl ShiftNegative \<and> fp_sigmoid 32 5 \<noteq> Inl ShiftTooWide \<and>
   30 < sint (31 :: int16) \<and> fp_tanh 32 31 = Inl ShiftTooWide \<and> fp_sigmoid 32 31 = Inl ShiftTooWide"
  using fp_tanh_fp_sigmoid_shift_amounts [of 2 32] fp_tanh_fp_sigmoid_shift_amounts [of 5 32]
    fp_tanh_fp_sigmoid_shift_amounts [of 31 32]
  by simp

text \<open>
  The claim as stated fails above its lower bound: a precision of 40 is at least 3, and
  \<^verbatim>\<open>1 << 37\<close> is undefined.
\<close>

theorem fp_tanh_fp_sigmoid_shift_amounts_counterexample:
  "3 \<le> sint (40 :: int16) \<and> fp_tanh 0 40 = Inl ShiftTooWide \<and> fp_sigmoid 0 40 = Inl ShiftTooWide"
  by (simp add: fp_tanh_def fp_sigmoid_def shl1_def)

section \<open>The hyperbolic tangent\<close>




section \<open>The sigmoid\<close>

text \<open>
  Claim C9, as the code has it. For a precision from 3 to 13 and every \<open>x\<close>,
  \<^verbatim>\<open>fp_sigmoid\<close> either divides by zero inside \<^verbatim>\<open>fp_tanh\<close> or returns a value in
  \<open>[0, 2\<^sup>p]\<close>; it returns whenever the square of \<open>x / 2\<close> fits into 16 bits at this
  precision.
\<close>

theorem fp_sigmoid_unit_interval:
  fixes x p :: int16
  assumes p: "3 \<le> sint p" "sint p \<le> 13"
  shows "(fp_sigmoid x p = Inl DivByZero \<or>
          (\<exists>s. fp_sigmoid x p = Inr s \<and> 0 \<le> sint s \<and> sint s \<le> 2 ^ nat (sint p))) \<and>
         (((sint x sdiv 2) * (sint x sdiv 2)) sdiv 2 ^ nat (sint p) \<le> 32767 \<longrightarrow>
          (\<exists>s. fp_sigmoid x p = Inr s \<and> 0 \<le> sint s \<and> sint s \<le> 2 ^ nat (sint p)))"
  using fp_sigmoid_bounds [OF p, of x] fp_sigmoid_clean [OF p, of x]
  by blast

text \<open>The theorem at \<open>x = 256\<close> (1.0) and precision 8, the case of the repository's test.\<close>

theorem fp_sigmoid_unit_interval_witness:
  "3 \<le> sint (8 :: int16) \<and> sint (8 :: int16) \<le> 13 \<and>
   ((sint (256 :: int16) sdiv 2) * (sint (256 :: int16) sdiv 2)) sdiv 2 ^ nat (sint (8 :: int16)) \<le> 32767 \<and>
   fp_sigmoid 256 8 = Inr 186 \<and> 0 \<le> sint (186 :: int16) \<and> sint (186 :: int16) \<le> 2 ^ nat (sint (8 :: int16))"
  using fp_sigmoid_unit_interval [of 8 256]
  by (simp add: kernel_eval)

text \<open>
  The claim as stated fails where \<^verbatim>\<open>fp_tanh\<close> divides by zero: at \<open>x = 8444\<close>, precision
  4, the argument of \<^verbatim>\<open>fp_tanh\<close> is 4222 and no value is returned.
\<close>

theorem fp_sigmoid_unit_interval_counterexample:
  "3 \<le> sint (4 :: int16) \<and> sint (4 :: int16) \<le> 13 \<and> fp_sigmoid 8444 4 = Inl DivByZero"
  by (simp add: kernel_eval)

text \<open>
  Claim C4, as the code has it. For a precision from 3 to 14: \<^verbatim>\<open>fp_sigmoid(0, p)\<close> is
  \<open>2\<^sup>p\<^sup>-\<^sup>1\<close>. For every \<open>x\<close> other than -32768 at which \<^verbatim>\<open>fp_sigmoid\<close> returns, it
  returns at \<open>-x\<close> as well and the two values add up to exactly \<open>2\<^sup>p\<close>. For \<open>x \<ge> 0\<close> the
  value is \<open>(tanh(x/2) + 1) / 2\<close>, and for \<open>x < 0\<close> other than -32768 it is the complement
  \<open>1 - (tanh(|x|/2) + 1) / 2\<close>, whenever \<^verbatim>\<open>fp_tanh\<close> returns.
\<close>

theorem fp_sigmoid_half_and_complement:
  fixes x p :: int16
  assumes p: "3 \<le> sint p" "sint p \<le> 14"
  shows "fp_sigmoid 0 p = Inr (word_of_int (2 ^ nat (sint p - 1))) \<and>
         (sint x \<noteq> - 32768 \<longrightarrow>
            (\<forall>s. fp_sigmoid x p = Inr s \<longrightarrow>
               (\<exists>s'. fp_sigmoid (fp_neg x) p = Inr s' \<and> sint s + sint s' = 2 ^ nat (sint p)))) \<and>
         (0 \<le> sint x \<longrightarrow>
            (\<forall>t. fp_tanh (word_of_int (sint x sdiv 2)) p = Inr t \<longrightarrow>
               (\<exists>s. fp_sigmoid x p = Inr s \<and> sint s = (sint t + 2 ^ nat (sint p)) sdiv 2))) \<and>
         (sint x < 0 \<and> sint x \<noteq> - 32768 \<longrightarrow>
            (\<forall>t. fp_tanh (word_of_int ((- sint x) sdiv 2)) p = Inr t \<longrightarrow>
               (\<exists>s. fp_sigmoid x p = Inr s \<and>
                  sint s = 2 ^ nat (sint p) - (sint t + 2 ^ nat (sint p)) sdiv 2)))"
  using fp_sigmoid_zero [OF p] fp_sigmoid_complement [OF p, of x]
    fp_sigmoid_branches [OF p, of x]
  by blast

text \<open>The theorem at \<open>x = 256\<close> (1.0) and precision 8, the case of the repository's test.\<close>

theorem fp_sigmoid_half_and_complement_witness:
  "3 \<le> sint (8 :: int16) \<and> sint (8 :: int16) \<le> 14 \<and> sint (256 :: int16) \<noteq> - 32768 \<and>
   fp_sigmoid 0 8 = Inr 128 \<and> fp_sigmoid 256 8 = Inr 186 \<and> fp_sigmoid (fp_neg 256) 8 = Inr 70 \<and>
   sint (186 :: int16) + sint (70 :: int16) = 2 ^ nat (sint (8 :: int16)) \<and>
   fp_tanh (word_of_int (sint (256 :: int16) sdiv 2)) 8 = Inr 117"
  using fp_sigmoid_half_and_complement [of 8 256]
  by (simp add: kernel_eval)

text \<open>
  The claim as stated fails at two kinds of input. Negating -32768 gives -32768 again, and
  the two values 8 and 8 at precision 3 add up to 16, twice \<open>2\<^sup>3\<close>. And at \<open>x = 16888\<close>,
  precision 5, \<^verbatim>\<open>fp_tanh\<close> divides by zero: no value is returned.
\<close>

theorem fp_sigmoid_half_and_complement_counterexample:
  "fp_neg (- 32768) = (- 32768 :: int16) \<and>
   fp_sigmoid (- 32768) 3 = Inr 8 \<and> sint (8 :: int16) + sint (8 :: int16) \<noteq> 2 ^ 3 \<and>
   fp_sigmoid 16888 5 = Inl DivByZero"
  by (simp add: kernel_eval)
section \<open>The exponential\<close>

text \<open>
  Claim C3, as the code has it. Let \<open>T\<close> be the cap \<^verbatim>\<open>POWER_SERIES_TERMS\<close> and let the
  series continue after \<open>m\<close> terms when \<open>m + 1 < T\<close> and the last term has changed the
  sum. For every precision and every \<open>x \<ge> 0\<close>, \<^verbatim>\<open>fp_exp\<close> returns \<open>r\<close> exactly when \<open>r\<close> is
  the sum of the power series \<open>power_series_spec\<close> (\<open>acc = acc\<cdot>x\<close>, \<open>fact = fact\<cdot>i\<close>,
  \<open>term = acc/fact\<close> by \<^verbatim>\<open>fp_mul\<close> and \<^verbatim>\<open>fp_div\<close>) after \<open>n\<close> terms, where \<open>n\<close> is the
  first count at which the series does not continue; and \<^verbatim>\<open>fp_exp\<close> fails exactly when
  a term of the series fails while the series continues (the 16-bit factorial can
  become 0, and then \<^verbatim>\<open>fp_div\<close> divides by zero). For every negative \<open>x\<close> other than
  -32768, \<^verbatim>\<open>fp_neg(x)\<close> is \<open>|x|\<close> and \<^verbatim>\<open>fp_exp\<close> is \<^verbatim>\<open>fp_div(int_to_fp(1, p), r, p)\<close> for
  the result \<open>r\<close> of \<^verbatim>\<open>fp_exp\<close> at \<open>|x|\<close>. For a precision from 0 to 14, \<^verbatim>\<open>fp_exp(0, p)\<close> is
  \<open>2\<^sup>p\<close>.
\<close>

theorem fp_exp_power_series:
  fixes x p :: int16 and T :: int
  shows "(0 \<le> sint x \<longrightarrow>
            (fp_exp T x p = Inr r \<longleftrightarrow>
               (\<exists>n acc fct prev. power_series_spec x p n = Inr (acc, fct, prev, r) \<and>
                  \<not> (int n + 1 < T \<and> prev \<noteq> r) \<and>
                  (\<forall>m<n. \<exists>a f q s. power_series_spec x p m = Inr (a, f, q, s) \<and>
                            int m + 1 < T \<and> q \<noteq> s))) \<and>
            (fp_exp T x p = Inl e \<longleftrightarrow>
               (\<exists>n. power_series_spec x p n = Inl e \<and>
                  (\<forall>m<n. \<exists>a f q s. power_series_spec x p m = Inr (a, f, q, s) \<and>
                            int m + 1 < T \<and> q \<noteq> s)))) \<and>
         (sint x < 0 \<and> sint x \<noteq> - 32768 \<longrightarrow>
            sint (fp_neg x) = \<bar>sint x\<bar> \<and>
            fp_exp T x p =
              seq (fp_exp T (fp_neg x) p) (\<lambda>r.
              seq (int_to_fp 1 p) (\<lambda>unit. fp_div unit r p))) \<and>
         (0 \<le> sint p \<and> sint p \<le> 14 \<longrightarrow>
            fp_exp T 0 p = Inr (word_of_int (2 ^ nat (sint p))) \<and>
            sint (word_of_int (2 ^ nat (sint p)) :: int16) = 2 ^ nat (sint p))"
  using fp_exp_series [where x = x and T = T and p = p and r = r]
    fp_exp_series_fault [where x = x and T = T and p = p and e = e]
    fp_exp_negative(1) [where x = x and T = T and p = p] fp_exp_negative(2) [where x = x]
    fp_exp_zero(1) [where p = p and T = T] fp_exp_zero(2) [where p = p]
  by blast

text \<open>
  The theorem with the cap 7, the one value for which the assertions of the repository's
  tests hold: \<open>x = 32\<close> at precision 5, where the sum stops changing after five terms;
  \<open>x = 8192\<close> at precision 13, where the fourth term divides by zero; \<open>x = -256\<close> at
  precision 8; and \<open>x = 0\<close>.
\<close>

theorem fp_exp_power_series_witness:
  "0 \<le> sint (32 :: int16) \<and> fp_exp 7 32 5 = Inr 86 \<and>
   (\<exists>n acc fct prev. power_series_spec 32 5 n = Inr (acc, fct, prev, 86) \<and>
      \<not> (int n + 1 < 7 \<and> prev \<noteq> 86) \<and>
      (\<forall>m<n. \<exists>a f q s. power_series_spec 32 5 m = Inr (a, f, q, s) \<and>
                int m + 1 < 7 \<and> q \<noteq> s)) \<and>
   0 \<le> sint (8192 :: int16) \<and> fp_exp 7 8192 13 = Inl DivByZero \<and>
   (\<exists>n. power_series_spec 8192 13 n = Inl DivByZero \<and>
      (\<forall>m<n. \<exists>a f q s. power_series_spec 8192 13 m = Inr (a, f, q, s) \<and>
                int m + 1 < 7 \<and> q \<noteq> s)) \<and>
   sint (- 256 :: int16) < 0 \<and> sint (- 256 :: int16) \<noteq> - 32768 \<and>
   sint (fp_neg (- 256)) = \<bar>sint (- 256 :: int16)\<bar> \<and>
   fp_exp 7 (fp_neg (- 256)) 8 = Inr 689 \<and> fp_exp 7 (- 256) 8 = Inr 95 \<and>
   0 \<le> sint (5 :: int16) \<and> sint (5 :: int16) \<le> 14 \<and> fp_exp 7 0 5 = Inr 32"
  using fp_exp_power_series [where x = 32 and T = 7 and p = 5 and r = 86 and e = DivByZero]
    fp_exp_power_series [where x = 8192 and T = 7 and p = 13 and r = 0 and e = DivByZero]
    fp_exp_power_series [where x = "- 256" and T = 7 and p = 8 and r = 0 and e = DivByZero]
    fp_exp_power_series [where x = 0 and T = 7 and p = 5 and r = 0 and e = DivByZero]
  by (simp add: kernel_eval fp_exp_def exp_loop.simps exp_body_def)

text \<open>
  The claim as stated fails in three ways. The loop has a third way to end: at
  \<open>x = 8192\<close> (1.0), precision 13, the factorial \<open>fact\<close> wraps to 0 in the fourth term and
  \<^verbatim>\<open>fp_div\<close> divides by zero. At precision 15 the value \<^verbatim>\<open>1 << 15\<close> becomes the 16-bit
  value -32768, which \<^verbatim>\<open>fp_exp(0, 15)\<close> returns; at precision 16 it becomes 0, the loop
  never runs and \<^verbatim>\<open>fp_exp(0, 16)\<close> is 0. And for \<open>x = -32768\<close> the negation wraps: the
  series runs on -32768, not on \<open>|x|\<close>.
\<close>

theorem fp_exp_power_series_counterexample:
  "fp_exp 7 8192 13 = Inl DivByZero \<and>
   power_series_spec 8192 13 3 = Inr (8192, - 16384, 20480, 16384) \<and>
   power_series_spec 8192 13 4 = Inl DivByZero \<and>
   fp_exp 7 0 15 = Inr (- 32768) \<and> sint (- 32768 :: int16) \<noteq> 2 ^ 15 \<and>
   fp_exp 7 0 16 = Inr 0 \<and>
   sint (- 32768 :: int16) < 0 \<and> sint (fp_neg (- 32768)) = - 32768"
  by code_simp

section \<open>The sequence driver\<close>

text \<open>
  Claim C1, as the code has it. The tag is inspected inside the loop, once per time step.
  For every cell-type tag other than \<^verbatim>\<open>GRUCell\<close> and \<^verbatim>\<open>TFGRUCell\<close>, a sequence
  length of at least 1 and an input array that is not empty, \<^verbatim>\<open>rnn\<close> returns
  \<^verbatim>\<open>NULL_PTR\<close> in the first step; by then it has filled the result buffer with zeros and
  has applied no cell. For a sequence length of 0 or less the loop body never runs, the
  tag is never inspected, and \<^verbatim>\<open>rnn\<close> returns the zero-filled state, not the null
  sentinel.
\<close>

theorem rnn_unrecognized_cell_type:
  assumes "mat_at h result = Inr R"
  shows "(0 < sint seqLength \<and> inputs \<noteq> [] \<longrightarrow>
            rnn h result inputs cell (OtherCell k) seqLength precision =
              Inr (set_data h result R (replicate (length (data R)) 0), None)) \<and>
         (sint seqLength \<le> 0 \<longrightarrow>
            rnn h result inputs cell (OtherCell k) seqLength precision =
              Inr (set_data h result R (replicate (length (data R)) 0), Some result))"
  using rnn_other_cell [OF assms] by blast

text \<open>The theorem for a state of two rows, one input and a sequence length of 3.\<close>

theorem rnn_unrecognized_cell_type_witness:
  "mat_at [Some \<lparr>numRows = 2, numCols = 1, data = [5, 7]\<rparr>] 0 =
     Inr \<lparr>numRows = 2, numCols = 1, data = [5, 7]\<rparr> \<and>
   0 < sint (3 :: int16) \<and> [0 :: nat] \<noteq> [] \<and>
   rnn [Some \<lparr>numRows = 2, numCols = 1, data = [5, 7]\<rparr>] 0 [0]
       (TFGRU_struct \<lparr>wGates = 0, bGates = 0, wCandidates = 0, bCandidates = 0\<rparr>)
       (OtherCell 2) 3 5 =
     Inr ([Some \<lparr>numRows = 2, numCols = 1, data = [0, 0]\<rparr>], None)"
  using rnn_unrecognized_cell_type
    [where h = "[Some \<lparr>numRows = 2, numCols = 1, data = [5, 7]\<rparr>]" and result = 0
       and R = "\<lparr>numRows = 2, numCols = 1, data = [5, 7]\<rparr>" and seqLength = 3
       and inputs = "[0]" and k = 2 and precision = 5
       and cell = "TFGRU_struct \<lparr>wGates = 0, bGates = 0, wCandidates = 0, bCandidates = 0\<rparr>"]
  by (simp add: mat_at_def set_data_def numeral_2_eq_2)

text \<open>
  The claim as stated fails at \<^verbatim>\<open>seqLength == 0\<close>: with the tag 2, which is neither
  \<^verbatim>\<open>GRUCell\<close> nor \<^verbatim>\<open>TFGRUCell\<close>, \<^verbatim>\<open>rnn\<close> returns the state pointer.
\<close>

theorem rnn_unrecognized_cell_type_counterexample:
  "rnn [Some \<lparr>numRows = 2, numCols = 1, data = [5, 7]\<rparr>] 0 []
       (TFGRU_struct \<lparr>wGates = 0, bGates = 0, wCandidates = 0, bCandidates = 0\<rparr>)
       (OtherCell 2) 0 5 =
     Inr ([Some \<lparr>numRows = 2, numCols = 1, data = [0, 0]\<rparr>], Some 0)"
  by (simp add: rnn_def matrix_set_def mat_at_def set_data_def Let_def rnn_loop.simps numeral_2_eq_2)

section \<open>The gated blend\<close>

text \<open>
  Claim C7, as the code has it. Let \<open>gate\<close>, \<open>first\<close>, \<open>second\<close> and \<open>result\<close> point to
  live matrices of one shape, any of which may be the same object. Then \<^verbatim>\<open>apply_gate\<close>
  writes \<open>first \<odot> g + second \<odot> (1 - g)\<close> into \<open>result\<close>, with the complement
  \<open>scalar_add(scalar_product(g, -1), 1)\<close>, and leaves its scratch matrix freed. For a
  precision from 0 to 14, where \<open>2^precision\<close> is a 16-bit value: when every entry of
  \<open>g\<close> is \<open>2^precision\<close> the values written are those of \<open>first\<close>, and when every
  entry of \<open>g\<close> is 0 they are those of \<open>second\<close>.
\<close>

theorem apply_gate_blend:
  assumes g: "mat_at h gate = Inr G" and f: "mat_at h first = Inr F"
    and s: "mat_at h second = Inr S" and r: "mat_at h result = Inr R"
    and sh: "same_shape F G" "same_shape S G" "same_shape R G"
    and len: "length (data F) = length (data G)" "length (data S) = length (data G)"
  shows "apply_gate h result gate first second p =
           seq (gate_spec p (data G) (data F) (data S)) (\<lambda>v.
             Inr (set_data h result R v @ [None], result)) \<and>
         (0 \<le> sint p \<and> sint p \<le> 14 \<and>
          (\<forall>x\<in>set (data G). x = word_of_int (2 ^ nat (sint p))) \<longrightarrow>
            apply_gate h result gate first second p =
              Inr (set_data h result R (data F) @ [None], result)) \<and>
         (0 \<le> sint p \<and> sint p \<le> 14 \<and> (\<forall>x\<in>set (data G). x = 0) \<longrightarrow>
            apply_gate h result gate first second p =
              Inr (set_data h result R (data S) @ [None], result))"
  using gate_spec_ones [OF _ _ len, of p] gate_spec_zeros [OF _ _ len, of p]
  by (simp add: apply_gate_run [OF g f s r sh])

text \<open>
  The theorem for \<open>result = first\<close>, as \<^verbatim>\<open>rnn\<close> calls the cells, at precision 5: with
  the gate all ones the state \<open>[10, -20]\<close> stays, with the gate all zeros it becomes the
  candidate \<open>[7, 9]\<close>.
\<close>

theorem apply_gate_blend_witness:
  "mat_at [Some \<lparr>numRows = 2, numCols = 1, data = [32, 32]\<rparr>,
           Some \<lparr>numRows = 2, numCols = 1, data = [10, - 20]\<rparr>,
           Some \<lparr>numRows = 2, numCols = 1, data = [7, 9]\<rparr>] 1 =
     Inr \<lparr>numRows = 2, numCols = 1, data = [10, - 20]\<rparr> \<and>
   0 \<le> sint (5 :: int16) \<and> sint (5 :: int16) \<le> 14 \<and>
   (32 :: int16) = word_of_int (2 ^ nat (sint (5 :: int16))) \<and>
   apply_gate [Some \<lparr>numRows = 2, numCols = 1, data = [32, 32]\<rparr>,
               Some \<lparr>numRows = 2, numCols = 1, data = [10, - 20]\<rparr>,
               Some \<lparr>numRows = 2, numCols = 1, data = [7, 9]\<rparr>] 1 0 1 2 5 =
     Inr ([Some \<lparr>numRows = 2, numCols = 1, data = [32, 32]\<rparr>,
           Some \<lparr>numRows = 2, numCols = 1, data = [10, - 20]\<rparr>,
           Some \<lparr>numRows = 2, numCols = 1, data = [7, 9]\<rparr>, None], 1) \<and>
   apply_gate [Some \<lparr>numRows = 2, numCols = 1, data = [0, 0]\<rparr>,
               Some \<lparr>numRows = 2, numCols = 1, data = [10, - 20]\<rparr>,
               Some \<lparr>numRows = 2, numCols = 1, data = [7, 9]\<rparr>] 1 0 1 2 5 =
     Inr ([Some \<lparr>numRows = 2, numCols = 1, data = [0, 0]\<rparr>,
           Some \<lparr>numRows = 2, numCols = 1, data = [7, 9]\<rparr>,
           Some \<lparr>numRows = 2, numCols = 1, data = [7, 9]\<rparr>, None], 1)"
  using apply_gate_blend
    [where h = "[Some \<lparr>numRows = 2, numCols = 1, data = [32, 32]\<rparr>,
                 Some \<lparr>numRows = 2, numCols = 1, data = [10, - 20]\<rparr>,
                 Some \<lparr>numRows = 2, numCols = 1, data = [7, 9]\<rparr>]"
       and gate = 0 and first = 1 and second = 2 and result = 1 and p = 5
       and G = "\<lparr>numRows = 2, numCols = 1, data = [32, 32]\<rparr>"
       and F = "\<lparr>numRows = 2, numCols = 1, data = [10, - 20]\<rparr>"
       and S = "\<lparr>numRows = 2, numCols = 1, data = [7, 9]\<rparr>"
       and R = "\<lparr>numRows = 2, numCols = 1, data = [10, - 20]\<rparr>", THEN conjunct2]
    apply_gate_blend
    [where h = "[Some \<lparr>numRows = 2, numCols = 1, data = [0, 0]\<rparr>,
                 Some \<lparr>numRows = 2, numCols = 1, data = [10, - 20]\<rparr>,
                 Some \<lparr>numRows = 2, numCols = 1, data = [7, 9]\<rparr>]"
       and gate = 0 and first = 1 and second = 2 and result = 1 and p = 5
       and G = "\<lparr>numRows = 2, numCols = 1, data = [0, 0]\<rparr>"
       and F = "\<lparr>numRows = 2, numCols = 1, data = [10, - 20]\<rparr>"
       and S = "\<lparr>numRows = 2, numCols = 1, data = [7, 9]\<rparr>"
       and R = "\<lparr>numRows = 2, numCols = 1, data = [10, - 20]\<rparr>", THEN conjunct2]
  by (simp add: mat_at_def same_shape_def set_data_def)

text \<open>
  The claim as stated fails outside these precisions. At precision 15 the constant
  \<^verbatim>\<open>int_to_fp(1, 15)\<close> is the 16-bit value -32768, that is -1.0: the complement of an
  all-zeros gate is -1 in every entry, and \<^verbatim>\<open>apply_gate\<close> returns the negated candidate
  \<open>[-7, -9]\<close>, not the candidate \<open>[7, 9]\<close>.
\<close>

theorem apply_gate_blend_counterexample:
  "apply_gate [Some \<lparr>numRows = 2, numCols = 1, data = [0, 0]\<rparr>,
               Some \<lparr>numRows = 2, numCols = 1, data = [10, - 20]\<rparr>,
               Some \<lparr>numRows = 2, numCols = 1, data = [7, 9]\<rparr>] 1 0 1 2 15 =
     Inr ([Some \<lparr>numRows = 2, numCols = 1, data = [0, 0]\<rparr>,
           Some \<lparr>numRows = 2, numCols = 1, data = [- 7, - 9]\<rparr>,
           Some \<lparr>numRows = 2, numCols = 1, data = [7, 9]\<rparr>, None], 1) \<and>
   int_to_fp 1 15 = Inr (- 32768)"
  by code_simp

section \<open>The fused GRU cell\<close>

text \<open>
  Claim C2. Let the input be an \<open>n \<times> 1\<close> matrix, the state and the result buffer
  \<open>hidden \<times> 1\<close> (they may be the same object, as in \<^verbatim>\<open>rnn\<close>), \<^verbatim>\<open>wGates\<close> of shape
  \<open>(2\<cdot>hidden) \<times> (n + hidden)\<close>, \<^verbatim>\<open>bGates\<close> of shape \<open>(2\<cdot>hidden) \<times> 1\<close>,
  \<^verbatim>\<open>wCandidates\<close> of shape \<open>hidden \<times> (n + hidden)\<close> and \<^verbatim>\<open>bCandidates\<close> of shape
  \<open>hidden \<times> 1\<close>, with \<open>2\<cdot>hidden \<le> 32767\<close>, so that the \<^verbatim>\<open>int16_t\<close> row index of the
  two split loops can reach \<open>2\<cdot>hidden\<close>. Then \<^verbatim>\<open>apply_tf_gru\<close> computes what \<open>tf_gru_spec\<close> says: the gates
  are \<open>sigmoid(Wgates\<cdot>[x; h] + bgates)\<close>, their rows \<open>[0, hidden)\<close> are the reset gate and
  their rows \<open>[hidden, 2\<cdot>hidden)\<close> the update gate, the reset gate is multiplied
  elementwise with the previous state before it is stacked under the input again, the
  candidate is \<open>tanh(Wcand\<cdot>[x; r \<odot> h] + bcand)\<close>, and the new state, written into the
  result buffer, is the blend of the previous state and the candidate by the update
  gate. A fault of the arithmetic (a division by zero in an activation, a bad precision)
  is a fault of \<^verbatim>\<open>apply_tf_gru\<close>, and the six scratch matrices are left freed.
\<close>

theorem apply_tf_gru_fused_cell:
  assumes "mat_at h input = Inr I" and "mat_at h state = Inr S" and "mat_at h result = Inr R"
    and "mat_at h (wGates gru) = Inr WG" and "mat_at h (bGates gru) = Inr BG"
    and "mat_at h (wCandidates gru) = Inr WC" and "mat_at h (bCandidates gru) = Inr BC"
    and "numCols I = 1" "numCols S = 1" "numCols R = 1" "numCols BG = 1" "numCols BC = 1"
    and "numRows R = numRows S" "numRows WG = 2 * numRows S"
      "numCols WG = numRows I + numRows S" "numRows BG = 2 * numRows S"
      "numRows WC = numRows S" "numCols WC = numRows I + numRows S" "numRows BC = numRows S"
    and "length (data I) = numRows I" "length (data S) = numRows S"
      "length (data BG) = 2 * numRows S" "length (data BC) = numRows S"
    and "2 * numRows S \<le> 32767"
  shows "apply_tf_gru h result input state gru p =
           seq (tf_gru_spec p WG (data BG) WC (data BC) (data I) (data S)) (\<lambda>v.
             Inr (set_data h result R v @ [None, None, None, None, None, None], result))"
  using assms by (rule apply_tf_gru_run)

text \<open>
  The theorem for one input and one hidden unit at precision 5, with the result buffer
  the state itself. The gate rows differ (reset gate 23, update gate 7), so that the
  order of the split shows in the result: with the rows exchanged it would be 17.
\<close>

theorem apply_tf_gru_fused_cell_witness:
  "apply_tf_gru [Some \<lparr>numRows = 1, numCols = 1, data = [32]\<rparr>,
                 Some \<lparr>numRows = 1, numCols = 1, data = [16]\<rparr>,
                 Some \<lparr>numRows = 2, numCols = 2, data = [32, 0, 0, 32]\<rparr>,
                 Some \<lparr>numRows = 2, numCols = 1, data = [0, - 64]\<rparr>,
                 Some \<lparr>numRows = 1, numCols = 2, data = [32, 32]\<rparr>,
                 Some \<lparr>numRows = 1, numCols = 1, data = [0]\<rparr>] 1 0 1
      \<lparr>wGates = 2, bGates = 3, wCandidates = 4, bCandidates = 5\<rparr> 5 =
   Inr ([Some \<lparr>numRows = 1, numCols = 1, data = [32]\<rparr>,
         Some \<lparr>numRows = 1, numCols = 1, data = [23]\<rparr>,
         Some \<lparr>numRows = 2, numCols = 2, data = [32, 0, 0, 32]\<rparr>,
         Some \<lparr>numRows = 2, numCols = 1, data = [0, - 64]\<rparr>,
         Some \<lparr>numRows = 1, numCols = 2, data = [32, 32]\<rparr>,
         Some \<lparr>numRows = 1, numCols = 1, data = [0]\<rparr>,
         None, None, None, None, None, None], 1)"
proof -
  have spec: "tf_gru_spec 5 \<lparr>numRows = 2, numCols = 2, data = [32, 0, 0, 32]\<rparr> [0, - 64]
                \<lparr>numRows = 1, numCols = 2, data = [32, 32]\<rparr> [0] [32] [16] = Inr [23]"
    by code_simp
  show ?thesis
    using spec apply_tf_gru_fused_cell
      [where h = "[Some \<lparr>numRows = 1, numCols = 1, data = [32]\<rparr>,
                   Some \<lparr>numRows = 1, numCols = 1, data = [16]\<rparr>,
                   Some \<lparr>numRows = 2, numCols = 2, data = [32, 0, 0, 32]\<rparr>,
                   Some \<lparr>numRows = 2, numCols = 1, data = [0, - 64]\<rparr>,
                   Some \<lparr>numRows = 1, numCols = 2, data = [32, 32]\<rparr>,
                   Some \<lparr>numRows = 1, numCols = 1, data = [0]\<rparr>]"
         and input = 0 and state = 1 and result = 1 and p = 5
         and gru = "\<lparr>wGates = 2, bGates = 3, wCandidates = 4, bCandidates = 5\<rparr>"
         and I = "\<lparr>numRows = 1, numCols = 1, data = [32]\<rparr>"
         and S = "\<lparr>numRows = 1, numCols = 1, data = [16]\<rparr>"
         and R = "\<lparr>numRows = 1, numCols = 1, data = [16]\<rparr>"
         and WG = "\<lparr>numRows = 2, numCols = 2, data = [32, 0, 0, 32]\<rparr>"
         and BG = "\<lparr>numRows = 2, numCols = 1, data = [0, - 64]\<rparr>"
         and WC = "\<lparr>numRows = 1, numCols = 2, data = [32, 32]\<rparr>"
         and BC = "\<lparr>numRows = 1, numCols = 1, data = [0]\<rparr>"]
    by (simp add: mat_at_def set_data_def)
qed

end
